theory Spec2Isabelle
  imports Main "HOL-Library.AList" "HOL-Library.Char_ord" "HOL-Library.List_Lexorder"
begin

section \<open>The plugin configuration popup (lib/gui/popup_configure.py)\<close>

subsection \<open>Python data\<close>

text \<open>
  A Python \<open>dict\<close> with string keys is an association list in insertion order:
  \<open>map_of d k\<close> is the lookup \<open>d[k]\<close> (\<open>None\<close> where Python raises
  \<open>KeyError\<close>), \<open>AList.update k v d\<close> is the assignment \<open>d[k] = v\<close> (an
  existing key keeps its place, a new key goes last), \<open>map fst d\<close> is
  \<open>list(d.keys())\<close>. Strings are compared by code point, as \<open>sorted\<close> does.
\<close>

type_synonym 'a dict = "(string \<times> 'a) list"

datatype error =
    KeyError string
  | TypeError
  | IndexError
  | ValueError
  | NoSectionError string
  | DuplicateSectionError string

text \<open>\<open>d.get(k, dflt)\<close>; the fallback is evaluated by the caller before the call.\<close>

definition dict_get :: "'a dict \<Rightarrow> string \<Rightarrow> 'a \<Rightarrow> 'a" where
  "dict_get d k dflt = (case map_of d k of Some v \<Rightarrow> v | None \<Rightarrow> dflt)"

text \<open>
  The dictionary of one option. The dialog reads and writes four of its keys:
  \<open>"default"\<close>, \<open>"helptext"\<close>, \<open>"value"\<close> (written by \<open>get_config\<close>) and
  \<open>"selected"\<close>, the Tk variable of the option's widget, modelled by the content
  \<open>tk_var.get()\<close> returns. A field is \<open>None\<close> when the key is missing. The type
  \<open>'v\<close> is the type of option values.
\<close>

record 'v option_meta =
  opt_default :: "'v option"
  opt_helptext :: "string option"
  opt_value :: "'v option"
  opt_selected :: "'v option"

text \<open>
  \<open>defaults[section]\<close> maps the key \<open>"helptext"\<close> to the section's help text and every
  other key to an option's dictionary.
\<close>

datatype 'v entry = Text string | Opt "'v option_meta"

type_synonym 'v options = "'v entry dict"

text \<open>
  \<open>ConfigParser(allow_no_value=True)\<close>: sections in order, each with its options in
  order; an option set without a value holds \<open>None\<close>.
\<close>

type_synonym parser = "string option dict dict"

text \<open>
  The configuration collaborator (\<open>self.config\<close>, an object of lib/config.py): its parser
  \<open>config\<close>, its \<open>defaults\<close>, the section its \<open>config_dict\<close> property reads, and the
  content of its configuration file.
\<close>

record 'v faceswap_config =
  config :: parser
  defaults :: "'v options dict"
  cur_section :: string
  configfile :: parser

text \<open>
  \<open>get_config\<close> stores the object \<open>self.config.defaults[section]\<close> itself in the GUI
  snapshot, not a copy: what it, the control panels and \<open>reset\<close> write through the
  snapshot is written to the collaborator's \<open>defaults\<close>, and the reverse. The options
  objects therefore live in one store, the \<open>defaults\<close> dictionary that owns them, and
  the snapshot holds references to them; the address of an options object is the section
  name under which \<open>defaults\<close> holds it.
\<close>

datatype ref = Ref string

type_synonym gui_dict = "ref dict dict"

subsection \<open>String operations\<close>

text \<open>\<open>section.split(".")[0]\<close>: the text before the first full stop.\<close>

definition split_first :: "string \<Rightarrow> string" where
  "split_first s = takeWhile (\<lambda>c. c \<noteq> CHR ''.'') s"

text \<open>\<open>plugin[plugin.rfind(".") + 1:]\<close>: the text after the last full stop.\<close>

definition after_last_dot :: "string \<Rightarrow> string" where
  "after_last_dot s = rev (takeWhile (\<lambda>c. c \<noteq> CHR ''.'') (rev s))"

text \<open>\<open>s.replace("_", " ")\<close>\<close>

definition replace_underscore :: "string \<Rightarrow> string" where
  "replace_underscore s = map (\<lambda>c. if c = CHR ''_'' then CHR '' '' else c) s"

text \<open>
  \<open>str.title()\<close> and \<open>str.lower()\<close> are functions of Python's standard library,
  defined on all of Unicode. The functions of the dialog that call them take them as the
  parameters \<open>ttl\<close> and \<open>lower\<close>.
\<close>

subsection \<open>The dialog\<close>

text \<open>
  A page of the dialog: a control panel built from an options object and the section's
  help text, or a notebook of titled pages.
\<close>

datatype 'v page =
    ControlPanel ref "'v entry"
  | Notebook "(string \<times> 'v page) list"

text \<open>
  The \<open>ConfigurePlugins\<close> window: the collaborator \<open>self.config\<close>, \<open>self.plugin_info\<close>,
  \<open>self.config_dict_gui\<close>, the tabs of the notebook in \<open>self.page_frame\<close>, and whether
  the window has been destroyed.
\<close>

record 'v configure_plugins =
  self_config :: "'v faceswap_config"
  plugin_info :: "'v entry dict"
  config_dict_gui :: gui_dict
  tabs :: "(string \<times> 'v page) list"
  destroyed :: bool

text \<open>
  A raised exception is a value: \<open>Inl\<close> of the error. \<open>bind\<close> runs the next
  statement on the result of the last one and passes an error on.
\<close>

definition bind :: "error + 'a \<Rightarrow> ('a \<Rightarrow> error + 'b) \<Rightarrow> error + 'b" where
  "bind m f = (case m of Inl e \<Rightarrow> Inl e | Inr x \<Rightarrow> f x)"

text \<open>\<open>d[k]\<close>\<close>

definition dict_index :: "'a dict \<Rightarrow> string \<Rightarrow> error + 'a" where
  "dict_index d k = (case map_of d k of None \<Rightarrow> Inl (KeyError k) | Some v \<Rightarrow> Inr v)"

text \<open>\<open>opt[name]\<close> for one of the four keys of an option's dictionary.\<close>

definition dict_field :: "string \<Rightarrow> 'a option \<Rightarrow> error + 'a" where
  "dict_field name x = (case x of None \<Rightarrow> Inl (KeyError name) | Some v \<Rightarrow> Inr v)"

text \<open>
  An entry used as an option's dictionary: indexing the help text, a \<open>str\<close>, with a key
  raises \<open>TypeError\<close>.
\<close>

definition as_option :: "'v entry \<Rightarrow> error + 'v option_meta" where
  "as_option e = (case e of Text _ \<Rightarrow> Inl TypeError | Opt opt \<Rightarrow> Inr opt)"

text \<open>\<open>self.config_dict_gui[category][sect]\<close>\<close>

definition gui_section :: "gui_dict \<Rightarrow> string \<Rightarrow> string \<Rightarrow> error + ref" where
  "gui_section conf category sect =
     (case map_of conf category of
        None \<Rightarrow> Inl (KeyError category)
      | Some secs \<Rightarrow>
          (case map_of secs sect of None \<Rightarrow> Inl (KeyError sect) | Some r \<Rightarrow> Inr r))"

text \<open>The options object behind a reference.\<close>

definition deref :: "'v configure_plugins \<Rightarrow> ref \<Rightarrow> error + 'v options" where
  "deref dlg r =
     (case r of Ref a \<Rightarrow>
        (case map_of (defaults (self_config dlg)) a of
           None \<Rightarrow> Inl (KeyError a)
         | Some options \<Rightarrow> Inr options))"

text \<open>\<open>options[item]\<close>, used as an option's dictionary.\<close>

definition option_of :: "'v options \<Rightarrow> string \<Rightarrow> error + 'v option_meta" where
  "option_of options item =
     (case map_of options item of
        None \<Rightarrow> Inl (KeyError item)
      | Some (Text _) \<Rightarrow> Inl TypeError
      | Some (Opt opt) \<Rightarrow> Inr opt)"

text \<open>\<open>self.config_dict_gui[category][sect][item]\<close>\<close>

definition gui_option ::
  "'v configure_plugins \<Rightarrow> gui_dict \<Rightarrow> string \<Rightarrow> string \<Rightarrow> string
     \<Rightarrow> error + 'v option_meta" where
  "gui_option dlg conf category sect item =
     (case gui_section conf category sect of
        Inl e \<Rightarrow> Inl e
      | Inr r \<Rightarrow> (case deref dlg r of Inl e \<Rightarrow> Inl e | Inr options \<Rightarrow> option_of options item))"

text \<open>
  Writing to the option \<open>item\<close> of the options object behind a reference: the object is
  changed in place, so every holder of the reference sees the new content.
\<close>

definition store_option ::
  "ref \<Rightarrow> string \<Rightarrow> 'v option_meta \<Rightarrow> 'v configure_plugins \<Rightarrow> 'v configure_plugins" where
  "store_option r item opt dlg =
     (case r of Ref a \<Rightarrow>
        dlg\<lparr>self_config :=
              (self_config dlg)\<lparr>defaults :=
                 AList.update a
                   (AList.update item (Opt opt) (dict_get (defaults (self_config dlg)) a []))
                   (defaults (self_config dlg))\<rparr>\<rparr>)"

subsection \<open>Load: \<open>get_config\<close>\<close>

text \<open>
  The inner loop of \<open>get_config\<close> over \<open>options.keys()\<close>. \<open>stored\<close> is
  \<open>self.config.config_dict\<close> for the section being loaded; the loop updates
  \<open>self.plugin_info\<close> and the options object.
\<close>

fun get_config_keys ::
  "'v dict \<Rightarrow> string \<Rightarrow> string list \<Rightarrow> 'v entry dict \<times> 'v options
     \<Rightarrow> error + ('v entry dict \<times> 'v options)" where
  "get_config_keys stored sect [] (info, options) = Inr (info, options)"
| "get_config_keys stored sect (key # keys) (info, options) =
     (if key = ''helptext'' then
        (case map_of options key of
           None \<Rightarrow> Inl (KeyError key)
         | Some e \<Rightarrow> get_config_keys stored sect keys (AList.update sect e info, options))
      else
        (case map_of options key of
           None \<Rightarrow> Inl (KeyError key)
         | Some (Text _) \<Rightarrow> Inl TypeError
         | Some (Opt opt) \<Rightarrow>
             (case opt_default opt of
                None \<Rightarrow> Inl (KeyError ''default'')
              | Some d \<Rightarrow>
                  get_config_keys stored sect keys
                    (info,
                     AList.update key
                       (Opt (opt\<lparr>opt_value := Some (dict_get stored key d)\<rparr>)) options))))"

text \<open>
  The outer loop over \<open>self.config.config.sections()\<close>. The property
  \<open>self.config.config_dict\<close> belongs to lib/config.py; it is the parameter \<open>cd\<close>, a
  function of the collaborator's parser and current section. The options object is
  written back to the store under its address when the inner loop is done.
\<close>

fun get_config_sections ::
  "(parser \<Rightarrow> string \<Rightarrow> 'v dict) \<Rightarrow> string list \<Rightarrow> gui_dict \<times> 'v configure_plugins
     \<Rightarrow> error + (gui_dict \<times> 'v configure_plugins)" where
  "get_config_sections cd [] (conf, dlg) = Inr (conf, dlg)"
| "get_config_sections cd (sect # rest) (conf, dlg) =
     (let cfg = (self_config dlg)\<lparr>cur_section := sect\<rparr>;
          category = split_first sect
      in case map_of (defaults cfg) sect of
           None \<Rightarrow> Inl (KeyError sect)
         | Some options \<Rightarrow>
             (let conf' = AList.update category
                            (AList.update sect (Ref sect) (dict_get conf category [])) conf
              in case get_config_keys (cd (config cfg) sect) sect (map fst options)
                        (plugin_info dlg, options) of
                   Inl e \<Rightarrow> Inl e
                 | Inr (info, options') \<Rightarrow>
                     get_config_sections cd rest
                       (conf',
                        dlg\<lparr>self_config :=
                              cfg\<lparr>defaults := AList.update sect options' (defaults cfg)\<rparr>,
                            plugin_info := info\<rparr>)))"

definition get_config ::
  "(parser \<Rightarrow> string \<Rightarrow> 'v dict) \<Rightarrow> 'v configure_plugins
     \<Rightarrow> error + (gui_dict \<times> 'v configure_plugins)" where
  "get_config cd dlg =
     get_config_sections cd (map fst (config (self_config dlg))) ([], dlg)"

subsection \<open>Render: \<open>build\<close>\<close>

text \<open>
  The list \<open>categories\<close> of \<open>build\<close>: the sorted keys of the snapshot, with
  \<open>"global"\<close> popped from its index and inserted at position 0.
\<close>

definition build_categories :: "gui_dict \<Rightarrow> string list" where
  "build_categories conf =
     (let categories = sort (map fst conf)
      in if ''global'' \<in> set categories
         then ''global'' # remove1 ''global'' categories
         else categories)"

text \<open>
  Modelled from the spec: \<open>ControlPanel\<close> (lib/gui/control_helper.py) is the "generic
  control-panel widget builder that renders one section's options into a page, given the
  option metadata and section help text"; the state the dialog works on afterwards is "the
  live widget bindings". Every option of the section gets a widget whose Tk variable
  starts at the option's current value; \<open>reset\<close> and \<open>save_config\<close> find that variable
  under the option's key \<open>"selected"\<close>.
\<close>

fun panel_options :: "'v options \<Rightarrow> error + 'v options" where
  "panel_options [] = Inr []"
| "panel_options ((key, e) # rest) =
     (if key = ''helptext'' then
        bind (panel_options rest) (\<lambda>rest'. Inr ((key, e) # rest'))
      else
        bind (as_option e) (\<lambda>opt.
        bind (dict_field ''value'' (opt_value opt)) (\<lambda>v.
        bind (panel_options rest) (\<lambda>rest'.
        Inr ((key, Opt (opt\<lparr>opt_selected := Some v\<rparr>)) # rest')))))"

definition control_panel ::
  "ref \<Rightarrow> 'v entry \<Rightarrow> 'v configure_plugins \<Rightarrow> error + ('v page \<times> 'v configure_plugins)" where
  "control_panel r info dlg =
     bind (deref dlg r) (\<lambda>options.
     bind (panel_options options) (\<lambda>options'.
     case r of Ref a \<Rightarrow>
       Inr (ControlPanel r info,
            dlg\<lparr>self_config :=
                  (self_config dlg)\<lparr>defaults :=
                     AList.update a options' (defaults (self_config dlg))\<rparr>\<rparr>)))"

text \<open>The title of a plugin's tab in \<open>build_page\<close>.\<close>

definition plugin_title :: "(string \<Rightarrow> string) \<Rightarrow> string \<Rightarrow> string" where
  "plugin_title ttl plugin = ttl (replace_underscore (after_last_dot plugin))"

text \<open>The loop \<open>for plugin in plugins\<close> of \<open>build_page\<close>, adding a frame per plugin.\<close>

fun build_page_plugins ::
  "(string \<Rightarrow> string) \<Rightarrow> string \<Rightarrow> string list \<Rightarrow> 'v configure_plugins
     \<Rightarrow> error + ((string \<times> 'v page) list \<times> 'v configure_plugins)" where
  "build_page_plugins ttl category [] dlg = Inr ([], dlg)"
| "build_page_plugins ttl category (plugin # rest) dlg =
     bind (gui_section (config_dict_gui dlg) category plugin) (\<lambda>r.
     bind (dict_index (plugin_info dlg) plugin) (\<lambda>info.
     bind (control_panel r info dlg) (\<lambda>(frame, dlg1).
     bind (build_page_plugins ttl category rest dlg1) (\<lambda>(frames, dlg2).
     Inr ((plugin_title ttl plugin, frame) # frames, dlg2)))))"

definition build_page ::
  "(string \<Rightarrow> string) \<Rightarrow> string \<Rightarrow> 'v configure_plugins
     \<Rightarrow> error + ('v page \<times> 'v configure_plugins)" where
  "build_page ttl category dlg =
     bind (dict_index (config_dict_gui dlg) category) (\<lambda>secs.
     let plugins = sort (map fst secs)
     in if list_ex (\<lambda>plugin. plugin \<noteq> category) plugins then
          bind (build_page_plugins ttl category plugins dlg) (\<lambda>(frames, dlg').
          Inr (Notebook frames, dlg'))
        else
          (case plugins of
             [] \<Rightarrow> Inl IndexError
           | plugin0 # _ \<Rightarrow>
               bind (gui_section (config_dict_gui dlg) category plugin0) (\<lambda>r.
               bind (dict_index (plugin_info dlg) plugin0) (\<lambda>info.
               control_panel r info dlg))))"

text \<open>The loop \<open>for category in categories\<close> of \<open>build\<close>, adding a tab per category.\<close>

fun build_tabs ::
  "(string \<Rightarrow> string) \<Rightarrow> string list \<Rightarrow> 'v configure_plugins
     \<Rightarrow> error + 'v configure_plugins" where
  "build_tabs ttl [] dlg = Inr dlg"
| "build_tabs ttl (category # rest) dlg =
     bind (build_page ttl category dlg) (\<lambda>(page, dlg1).
     build_tabs ttl rest (dlg1\<lparr>tabs := tabs dlg1 @ [(ttl category, page)]\<rparr>))"

definition build ::
  "(string \<Rightarrow> string) \<Rightarrow> 'v configure_plugins \<Rightarrow> error + 'v configure_plugins" where
  "build ttl dlg = build_tabs ttl (build_categories (config_dict_gui dlg)) dlg"

text \<open>
  \<open>ConfigurePlugins.__init__\<close>, from the collaborator of the pair \<open>config\<close>: the empty
  window, then \<open>get_config\<close> and \<open>build\<close>. The title and geometry of the window are
  not modelled.
\<close>

definition new_dialog :: "'v faceswap_config \<Rightarrow> 'v configure_plugins" where
  "new_dialog cfg =
     \<lparr>self_config = cfg, plugin_info = [], config_dict_gui = [], tabs = [],
      destroyed = False\<rparr>"

definition init ::
  "(parser \<Rightarrow> string \<Rightarrow> 'v dict) \<Rightarrow> (string \<Rightarrow> string) \<Rightarrow> string \<times> 'v faceswap_config
     \<Rightarrow> error + 'v configure_plugins" where
  "init cd ttl config_pair =
     bind (get_config cd (new_dialog (snd config_pair))) (\<lambda>(conf, dlg).
     build ttl (dlg\<lparr>config_dict_gui := conf\<rparr>))"

subsection \<open>Reset\<close>

text \<open>The list \<open>lookup\<close> of \<open>reset\<close>, as a pair.\<close>

definition reset_lookup :: "string \<Rightarrow> string \<times> string" where
  "reset_lookup sect =
     (if CHR ''.'' \<in> set sect then (split_first sect, sect) else (sect, sect))"

text \<open>
  The inner loop of \<open>reset\<close> over the items of the section \<open>sect\<close> of
  \<open>self.config.defaults\<close>. \<open>items\<close> and \<open>def_opt\<close> are the live objects of the store,
  read at each step; \<open>tk_var.set(default)\<close> changes the variable behind the snapshot's
  reference.
\<close>

fun reset_items ::
  "string \<Rightarrow> string list \<Rightarrow> 'v configure_plugins \<Rightarrow> error + 'v configure_plugins" where
  "reset_items sect [] dlg = Inr dlg"
| "reset_items sect (item # rest) dlg =
     (if item = ''helptext'' then reset_items sect rest dlg
      else
        bind (deref dlg (Ref sect)) (\<lambda>items.
        bind (option_of items item) (\<lambda>def_opt.
        bind (dict_field ''default'' (opt_default def_opt)) (\<lambda>dflt.
        bind (gui_section (config_dict_gui dlg)
                (fst (reset_lookup sect)) (snd (reset_lookup sect))) (\<lambda>r.
        bind (deref dlg r) (\<lambda>options.
        bind (option_of options item) (\<lambda>opt.
        bind (dict_field ''selected'' (opt_selected opt)) (\<lambda>tk_var.
        reset_items sect rest
          (store_option r item (opt\<lparr>opt_selected := Some dflt\<rparr>) dlg)))))))))"

text \<open>The outer loop of \<open>reset\<close> over the sections of \<open>self.config.defaults\<close>.\<close>

fun reset_sections ::
  "string list \<Rightarrow> 'v configure_plugins \<Rightarrow> error + 'v configure_plugins" where
  "reset_sections [] dlg = Inr dlg"
| "reset_sections (sect # rest) dlg =
     bind (deref dlg (Ref sect)) (\<lambda>items.
     bind (reset_items sect (map fst items) dlg) (\<lambda>dlg1.
     reset_sections rest dlg1))"

definition reset :: "'v configure_plugins \<Rightarrow> error + 'v configure_plugins" where
  "reset dlg = reset_sections (map fst (defaults (self_config dlg))) dlg"

subsection \<open>Save\<close>

text \<open>
  The dictionary \<open>options\<close> of \<open>save_config\<close>: the comprehension runs over the
  categories and their sections in order, a later section of the same name replacing an
  earlier one.
\<close>

definition flatten_gui :: "gui_dict \<Rightarrow> ref dict" where
  "flatten_gui conf =
     foldl (\<lambda>options (sect, opts). AList.update sect opts options) [] (concat (map snd conf))"

text \<open>
  \<open>BasicInterpolation.before_set\<close>, the check of \<open>ConfigParser.set\<close> on a value:
  \<open>value.replace('%%', '')\<close> takes out the escaped percent signs, from left to right;
  then every reference \<open>%(name)s\<close> is taken out, from left to right, where \<open>name\<close> is
  one or more characters other than a closing parenthesis; a percent sign that is left
  raises \<open>ValueError\<close>.
\<close>

fun remove_escaped :: "string \<Rightarrow> string" where
  "remove_escaped [] = []"
| "remove_escaped [c] = [c]"
| "remove_escaped (c # d # cs) =
     (if c = CHR ''%'' \<and> d = CHR ''%'' then remove_escaped cs
      else c # remove_escaped (d # cs))"

text \<open>The length of the reference \<open>%(name)s\<close> that a string starts with, if it does.\<close>

definition key_length :: "string \<Rightarrow> nat option" where
  "key_length s =
     (case s of
        c # d # cs \<Rightarrow>
          (let name = takeWhile (\<lambda>x. x \<noteq> CHR 0x29) cs
           in if c = CHR ''%'' \<and> d = CHR 0x28 \<and> name \<noteq> []
                 \<and> take 2 (drop (length name) cs) = [CHR 0x29, CHR ''s'']
              then Some (length name + 4) else None)
      | _ \<Rightarrow> None)"

text \<open>
  The removal of the references; \<open>n\<close> is the number of characters of the current match
  that are still to be skipped.
\<close>

fun remove_keys_from :: "nat \<Rightarrow> string \<Rightarrow> string" where
  "remove_keys_from n [] = []"
| "remove_keys_from (Suc n) (c # cs) = remove_keys_from n cs"
| "remove_keys_from 0 (c # cs) =
     (case key_length (c # cs) of
        Some k \<Rightarrow> remove_keys_from (k - 1) cs
      | None \<Rightarrow> c # remove_keys_from 0 cs)"

definition remove_keys :: "string \<Rightarrow> string" where
  "remove_keys s = remove_keys_from 0 s"

definition before_set :: "string \<Rightarrow> error + string" where
  "before_set v =
     (if CHR ''%'' \<in> set (remove_keys (remove_escaped v)) then Inl ValueError else Inr v)"

text \<open>
  \<open>ConfigParser.set(section, option, value)\<close> on the parser that \<open>save_config\<close> creates
  with \<open>ConfigParser(allow_no_value=True)\<close>. A value that is neither \<open>None\<close> nor empty
  goes through \<open>before_set\<close>. The options of the section are then looked up: for the
  section names \<open>""\<close> and \<open>"DEFAULT"\<close> they are the parser's defaults, which are no
  section and which the model does not hold, so that the sections stay as they are; a
  section that is missing raises \<open>NoSectionError\<close>. The value is stored under
  \<open>optionxform(option)\<close>, which is \<open>option.lower()\<close>.
\<close>

definition parser_set ::
  "(string \<Rightarrow> string) \<Rightarrow> parser \<Rightarrow> string \<Rightarrow> string \<Rightarrow> string option \<Rightarrow> error + parser" where
  "parser_set lower p sect opt_name v =
     bind (case v of
             None \<Rightarrow> Inr None
           | Some t \<Rightarrow> if t = [] then Inr (Some t) else bind (before_set t) (\<lambda>t'. Inr (Some t')))
       (\<lambda>v'.
          if sect = [] \<or> sect = ''DEFAULT'' then Inr p
          else (case map_of p sect of
                  None \<Rightarrow> Inl (NoSectionError sect)
                | Some d \<Rightarrow> Inr (AList.update sect (AList.update (lower opt_name) v' d) p)))"

text \<open>
  Modelled from the spec: \<open>insert_config_section\<close> (lib/config.py) is the collaborator's
  "write section header" operation: in the persisted format "each section [is] prefixed
  with a comment containing formatted help text". It adds the section to the parser
  (\<open>add_section\<close> raises \<open>ValueError\<close> for the name \<open>"DEFAULT"\<close> and
  \<open>DuplicateSectionError\<close> for a section that exists) and sets the formatted help text
  as an option without a value; the parser's settings, its \<open>optionxform\<close> among them,
  stay as \<open>save_config\<close> created them. \<open>fh\<close> is the collaborator's help-text
  formatter \<open>format_help(helptext, is_section)\<close>.
\<close>

definition insert_config_section ::
  "(string \<Rightarrow> bool \<Rightarrow> string) \<Rightarrow> (string \<Rightarrow> string) \<Rightarrow> string \<Rightarrow> 'v entry \<Rightarrow> parser
     \<Rightarrow> error + parser" where
  "insert_config_section fh lower sect helptext p =
     (case helptext of
        Opt _ \<Rightarrow> Inl TypeError
      | Text h \<Rightarrow>
          if sect = ''DEFAULT'' then Inl ValueError
          else if sect \<in> set (map fst p) then Inl (DuplicateSectionError sect)
          else parser_set lower (p @ [(sect, [])]) sect (fh h True) None)"

text \<open>
  The inner loop of \<open>save_config\<close> over the items of the section \<open>sect\<close> of
  \<open>self.config.defaults\<close>. \<open>options\<close> is the flattened snapshot, \<open>str\<close> is Python's
  \<open>str\<close> on option values.
\<close>

fun save_items ::
  "(string \<Rightarrow> bool \<Rightarrow> string) \<Rightarrow> (string \<Rightarrow> string) \<Rightarrow> ('v \<Rightarrow> string) \<Rightarrow> ref dict
     \<Rightarrow> 'v configure_plugins \<Rightarrow> string \<Rightarrow> string list \<Rightarrow> parser \<Rightarrow> error + parser" where
  "save_items fh lower str options dlg sect [] new_config = Inr new_config"
| "save_items fh lower str options dlg sect (item # rest) new_config =
     (if item = ''helptext'' then save_items fh lower str options dlg sect rest new_config
      else
        bind (deref dlg (Ref sect)) (\<lambda>items.
        bind (dict_index items item) (\<lambda>def_opt.
        bind (dict_index options sect) (\<lambda>r.
        bind (deref dlg r) (\<lambda>opts.
        bind (dict_index opts item) (\<lambda>new_opt.
        bind (as_option def_opt) (\<lambda>def_opt'.
        bind (dict_field ''helptext'' (opt_helptext def_opt')) (\<lambda>helptext.
        bind (parser_set lower new_config sect (fh helptext False) None) (\<lambda>p1.
        bind (as_option new_opt) (\<lambda>new_opt'.
        bind (dict_field ''selected'' (opt_selected new_opt')) (\<lambda>selected.
        bind (parser_set lower p1 sect item (Some (str selected))) (\<lambda>p2.
        save_items fh lower str options dlg sect rest p2))))))))))))"

text \<open>The outer loop of \<open>save_config\<close> over the sections of \<open>self.config.defaults\<close>.\<close>

fun save_sections ::
  "(string \<Rightarrow> bool \<Rightarrow> string) \<Rightarrow> (string \<Rightarrow> string) \<Rightarrow> ('v \<Rightarrow> string) \<Rightarrow> ref dict
     \<Rightarrow> 'v configure_plugins \<Rightarrow> string list \<Rightarrow> parser \<Rightarrow> error + parser" where
  "save_sections fh lower str options dlg [] new_config = Inr new_config"
| "save_sections fh lower str options dlg (sect # rest) new_config =
     bind (deref dlg (Ref sect)) (\<lambda>items.
     bind (dict_index items ''helptext'') (\<lambda>helptext.
     bind (insert_config_section fh lower sect helptext new_config) (\<lambda>p1.
     bind (save_items fh lower str options dlg sect (map fst items) p1) (\<lambda>p2.
     save_sections fh lower str options dlg rest p2))))"

text \<open>\<open>Toplevel.destroy\<close>: the window is closed.\<close>

definition destroy :: "'v configure_plugins \<Rightarrow> 'v configure_plugins" where
  "destroy dlg = dlg\<lparr>destroyed := True\<rparr>"

text \<open>
  Modelled from the spec: the collaborator's \<open>save_config\<close> (lib/config.py) is its
  "persist to file" operation: the configuration file then holds the collaborator's
  parser.
\<close>

definition persist :: "'v faceswap_config \<Rightarrow> 'v faceswap_config" where
  "persist cfg = cfg\<lparr>configfile := config cfg\<rparr>"

definition save_config ::
  "(string \<Rightarrow> bool \<Rightarrow> string) \<Rightarrow> (string \<Rightarrow> string) \<Rightarrow> ('v \<Rightarrow> string)
     \<Rightarrow> 'v configure_plugins \<Rightarrow> error + 'v configure_plugins" where
  "save_config fh lower str dlg =
     (let options = flatten_gui (config_dict_gui dlg)
      in bind (save_sections fh lower str options dlg
                 (map fst (defaults (self_config dlg))) []) (\<lambda>new_config.
         Inr (destroy (dlg\<lparr>self_config :=
                             persist ((self_config dlg)\<lparr>config := new_config\<rparr>)\<rparr>))))"

subsection \<open>The action buttons and the user\<close>

text \<open>The buttons of \<open>add_actions\<close> and the command each one is given.\<close>

datatype button = Cancel | OK | Reset

definition command ::
  "(string \<Rightarrow> bool \<Rightarrow> string) \<Rightarrow> (string \<Rightarrow> string) \<Rightarrow> ('v \<Rightarrow> string) \<Rightarrow> button
     \<Rightarrow> 'v configure_plugins \<Rightarrow> error + 'v configure_plugins" where
  "command fh lower str b dlg =
     (case b of
        Cancel \<Rightarrow> Inr (destroy dlg)
      | OK \<Rightarrow> save_config fh lower str dlg
      | Reset \<Rightarrow> reset dlg)"

text \<open>
  An edit: the user sets the widget of the option \<open>item\<close> of the section \<open>sect\<close> to
  \<open>v\<close>, which sets its Tk variable. An option without a widget cannot be edited.
\<close>

definition edit ::
  "string \<times> string \<times> 'v \<Rightarrow> 'v configure_plugins \<Rightarrow> 'v configure_plugins" where
  "edit e dlg =
     (case e of (sect, item, v) \<Rightarrow>
        (case bind (deref dlg (Ref sect)) (\<lambda>options. option_of options item) of
           Inl _ \<Rightarrow> dlg
         | Inr opt \<Rightarrow>
             (case opt_selected opt of
                None \<Rightarrow> dlg
              | Some _ \<Rightarrow> store_option (Ref sect) item (opt\<lparr>opt_selected := Some v\<rparr>) dlg)))"

subsection \<open>Open: \<open>popup_config\<close>\<close>

text \<open>
  The windows created so far, each with its state, and the module's registry \<open>POPUP\<close>,
  which maps a configuration identifier to a window (its index in \<open>windows\<close>).
\<close>

record 'v gui =
  windows :: "'v configure_plugins list"
  popup :: "nat dict"

definition initial_gui :: "'v gui" where
  "initial_gui = \<lparr>windows = [], popup = []\<rparr>"

text \<open>The first statement of \<open>popup_config\<close>: closing the open popup.\<close>

definition close_open_popup :: "'v gui \<Rightarrow> 'v gui" where
  "close_open_popup st =
     (case popup st of
        [] \<Rightarrow> st
      | (p_key, w) # _ \<Rightarrow>
          st\<lparr>windows := (windows st)[w := destroy (windows st ! w)],
             popup := AList.delete p_key (popup st)\<rparr>)"

definition popup_config ::
  "(parser \<Rightarrow> string \<Rightarrow> 'v dict) \<Rightarrow> (string \<Rightarrow> string) \<Rightarrow> string \<times> 'v faceswap_config
     \<Rightarrow> 'v gui
     \<Rightarrow> error + 'v gui" where
  "popup_config cd ttl config_pair st =
     (let st1 = close_open_popup st
      in bind (init cd ttl config_pair) (\<lambda>window.
         Inr (st1\<lparr>windows := windows st1 @ [window],
                  popup := AList.update (fst config_pair) (length (windows st1)) (popup st1)\<rparr>)))"

text \<open>A sequence of calls of \<open>popup_config\<close>; a call that raises ends it.\<close>

fun popup_configs ::
  "(parser \<Rightarrow> string \<Rightarrow> 'v dict) \<Rightarrow> (string \<Rightarrow> string)
     \<Rightarrow> (string \<times> 'v faceswap_config) list \<Rightarrow> 'v gui
     \<Rightarrow> error + 'v gui" where
  "popup_configs cd ttl [] st = Inr st"
| "popup_configs cd ttl (config_pair # rest) st =
     bind (popup_config cd ttl config_pair st) (popup_configs cd ttl rest)"

subsection \<open>The collaborator's stored values\<close>

text \<open>
  Modelled from the spec: the property \<open>config_dict\<close> (lib/config.py) gives the
  collaborator's "current stored values" for the section being loaded, the values Load
  reads before "falling back to each option's default when no stored value exists": the
  options of the section that the parser holds with a value, each converted from the
  parser's text to the option's type by \<open>conv\<close>.
\<close>

definition config_dict :: "(string \<Rightarrow> string \<Rightarrow> string \<Rightarrow> 'v) \<Rightarrow> parser \<Rightarrow> string \<Rightarrow> 'v dict" where
  "config_dict conv p sect =
     (case map_of p sect of
        None \<Rightarrow> []
      | Some kvs \<Rightarrow> List.map_filter (\<lambda>(k, x). map_option (\<lambda>y. (k, conv sect k y)) x) kvs)"

subsection \<open>Auxiliary definitions\<close>

text \<open>What \<open>get_config\<close> does to one entry of an options object.\<close>

definition set_value :: "'v dict \<Rightarrow> string \<Rightarrow> 'v entry \<Rightarrow> 'v entry" where
  "set_value stored k e =
     (case e of
        Text t \<Rightarrow> e
      | Opt opt \<Rightarrow>
          (case opt_default opt of
             None \<Rightarrow> e
           | Some d \<Rightarrow> Opt (opt\<lparr>opt_value := Some (dict_get stored k d)\<rparr>)))"

definition load_entry :: "'v dict \<Rightarrow> string \<Rightarrow> 'v entry \<Rightarrow> 'v entry" where
  "load_entry stored k e = (if k = ''helptext'' then e else set_value stored k e)"

text \<open>One step of the outer loop of \<open>get_config\<close>, on the snapshot and on the dialog.\<close>

definition load_conf :: "string \<Rightarrow> gui_dict \<Rightarrow> gui_dict" where
  "load_conf sect conf =
     AList.update (split_first sect)
       (AList.update sect (Ref sect) (dict_get conf (split_first sect) [])) conf"

definition load_dlg ::
  "string \<Rightarrow> 'v entry dict \<Rightarrow> 'v options \<Rightarrow> 'v configure_plugins \<Rightarrow> 'v configure_plugins" where
  "load_dlg sect info options' dlg =
     dlg\<lparr>self_config :=
           (self_config dlg)\<lparr>cur_section := sect,
              defaults := AList.update sect options' (defaults (self_config dlg))\<rparr>,
         plugin_info := info\<rparr>"

text \<open>
  The snapshot after \<open>get_config\<close> has gone through the sections \<open>S\<close>: the categories
  are distinct, none is empty, and the category \<open>c\<close> holds exactly the sections of \<open>S\<close>
  whose name starts with \<open>c\<close>, each with the reference to its own options object.
\<close>

definition gui_inv :: "string set \<Rightarrow> gui_dict \<Rightarrow> bool" where
  "gui_inv S conf \<longleftrightarrow>
     distinct (map fst conf) \<and>
     (\<forall>c. case map_of conf c of
            None \<Rightarrow> \<forall>s\<in>S. split_first s \<noteq> c
          | Some secs \<Rightarrow>
              distinct (map fst secs) \<and> secs \<noteq> [] \<and>
              (\<forall>s. map_of secs s = (if s \<in> S \<and> split_first s = c then Some (Ref s) else None)))"

text \<open>
  What loading, rendering, editing and resetting leave as it is: the parser, the
  configuration file, the snapshot, the help texts and whether the window is open.
\<close>

definition same_frame :: "'v configure_plugins \<Rightarrow> 'v configure_plugins \<Rightarrow> bool" where
  "same_frame dlg dlg' \<longleftrightarrow>
     config (self_config dlg') = config (self_config dlg) \<and>
     configfile (self_config dlg') = configfile (self_config dlg) \<and>
     config_dict_gui dlg' = config_dict_gui dlg \<and>
     plugin_info dlg' = plugin_info dlg \<and>
     destroyed dlg' = destroyed dlg"

text \<open>
  The registry holds the last window created, under \<open>name\<close>; that window is open and all
  others are destroyed.
\<close>

definition popup_single :: "'v gui \<Rightarrow> string \<Rightarrow> bool" where
  "popup_single st name \<longleftrightarrow>
     windows st \<noteq> [] \<and>
     popup st = [(name, length (windows st) - 1)] \<and>
     \<not> destroyed (last (windows st)) \<and>
     (\<forall>w\<in>set (butlast (windows st)). destroyed w)"

text \<open>
  The invariant of the registry: no popup is registered and none is open, or a single one is.
\<close>

definition popup_ok :: "'v gui \<Rightarrow> bool" where
  "popup_ok st \<longleftrightarrow>
     (popup st = [] \<and> (\<forall>w\<in>set (windows st). destroyed w)) \<or> (\<exists>name. popup_single st name)"

text \<open>
  Every reference of the snapshot, found under a section name, is the reference to that
  section's own options object.
\<close>

definition refs_own :: "gui_dict \<Rightarrow> bool" where
  "refs_own conf \<longleftrightarrow> (\<forall>c s r. gui_section conf c s = Inr r \<longrightarrow> r = Ref s)"

text \<open>
  \<open>self.config.defaults[s][k]\<close>, when both keys are present.
\<close>

definition entry_at :: "'v configure_plugins \<Rightarrow> string \<Rightarrow> string \<Rightarrow> 'v entry option" where
  "entry_at dlg s k =
     (case map_of (defaults (self_config dlg)) s of None \<Rightarrow> None | Some items \<Rightarrow> map_of items k)"

text \<open>
  The keys of \<open>self.config.defaults[s]\<close>.
\<close>

definition keys_at :: "'v configure_plugins \<Rightarrow> string \<Rightarrow> string list option" where
  "keys_at dlg s = map_option (map fst) (map_of (defaults (self_config dlg)) s)"

text \<open>
  What \<open>reset\<close> does to one entry of an options object.
\<close>

definition reset_entry :: "'v entry \<Rightarrow> 'v entry" where
  "reset_entry e =
     (case e of
        Text _ \<Rightarrow> e
      | Opt opt \<Rightarrow>
          (case opt_default opt of None \<Rightarrow> e | Some d \<Rightarrow> Opt (opt\<lparr>opt_selected := Some d\<rparr>)))"





text \<open>
  Every entry other than the help text is an option with a default and a widget variable.
\<close>

definition resettable :: "'v configure_plugins \<Rightarrow> bool" where
  "resettable dlg \<longleftrightarrow>
     (\<forall>sect item e. entry_at dlg sect item = Some e \<longrightarrow> item \<noteq> ''helptext'' \<longrightarrow>
        (\<exists>opt d v. e = Opt opt \<and> opt_default opt = Some d \<and> opt_selected opt = Some v))"

text \<open>
  The section has a help text, and every other entry is an option with a help text and a
  widget variable whose text passes \<open>before_set\<close>.
\<close>

definition saveable :: "('v \<Rightarrow> string) \<Rightarrow> 'v options \<Rightarrow> bool" where
  "saveable str items \<longleftrightarrow>
     (\<exists>h. map_of items ''helptext'' = Some (Text h)) \<and>
     (\<forall>item e. map_of items item = Some e \<longrightarrow> item \<noteq> ''helptext'' \<longrightarrow>
        (\<exists>opt h v. e = Opt opt \<and> opt_helptext opt = Some h \<and> opt_selected opt = Some v
           \<and> before_set (str v) = Inr (str v)))"

subsection \<open>An example configuration\<close>

text \<open>
  The two functions on strings of ASCII characters, where \<open>str.title()\<close> upper-cases a
  letter that does not follow a letter, lower-cases a letter that follows one and keeps
  every other character, and \<open>str.lower()\<close> lower-cases the letters \<open>A\<close> to \<open>Z\<close>.
  The examples apply them to such strings only; on other characters they are not Python's
  functions.
\<close>

definition lowers :: string where
  "lowers = ''abcdefghijklmnopqrstuvwxyz''"

definition uppers :: string where
  "uppers = ''ABCDEFGHIJKLMNOPQRSTUVWXYZ''"

definition to_upper :: "char \<Rightarrow> char" where
  "to_upper c = (case map_of (zip lowers uppers) c of Some u \<Rightarrow> u | None \<Rightarrow> c)"

definition to_lower :: "char \<Rightarrow> char" where
  "to_lower c = (case map_of (zip uppers lowers) c of Some l \<Rightarrow> l | None \<Rightarrow> c)"

fun title_from :: "bool \<Rightarrow> string \<Rightarrow> string" where
  "title_from prev [] = []"
| "title_from prev (c # cs) =
     (if c \<in> set lowers then (if prev then c else to_upper c) # title_from True cs
      else if c \<in> set uppers then (if prev then to_lower c else c) # title_from True cs
      else c # title_from False cs)"

definition title_ascii :: "string \<Rightarrow> string" where
  "title_ascii s = title_from False s"

definition lower_ascii :: "string \<Rightarrow> string" where
  "lower_ascii s = map to_lower s"

text \<open>
  Four sections in three categories, with option values that are strings; two options
  have a stored value.
\<close>

definition example_entry ::
  "string \<Rightarrow> string \<Rightarrow> string option \<Rightarrow> string option \<Rightarrow> string entry" where
  "example_entry d h v s =
     Opt \<lparr>opt_default = Some d, opt_helptext = Some h, opt_value = v, opt_selected = s\<rparr>"

text \<open>
  The defaults of the example; \<open>val\<close> and \<open>sel\<close> give, by option name, the content of
  the keys \<open>"value"\<close> and \<open>"selected"\<close>.
\<close>

definition example_store ::
  "(string \<Rightarrow> string option) \<Rightarrow> (string \<Rightarrow> string option) \<Rightarrow> string options dict" where
  "example_store val sel =
     [(''global'',
       [(''helptext'', Text ''Options that apply to all plugins''),
        (''opt1'', example_entry ''5'' ''The first option'' (val ''opt1'') (sel ''opt1''))]),
      (''extract.align'',
       [(''helptext'', Text ''Aligner options''),
        (''size'', example_entry ''256'' ''The size of the face'' (val ''size'') (sel ''size''))]),
      (''extract.detect'',
       [(''helptext'', Text ''Detector options''),
        (''threshold'',
         example_entry ''50'' ''The confidence threshold'' (val ''threshold'')
           (sel ''threshold''))]),
      (''train.model'',
       [(''helptext'', Text ''Model options''),
        (''lowmem'',
         example_entry ''False'' ''Use less memory'' (val ''lowmem'') (sel ''lowmem''))])]"

definition example_defaults :: "string options dict" where
  "example_defaults = example_store (\<lambda>_. None) (\<lambda>_. None)"

definition example_parser :: parser where
  "example_parser =
     [(''global'', [(''# OPTIONS THAT APPLY TO ALL PLUGINS'', None), (''opt1'', Some ''7'')]),
      (''extract.align'', [(''size'', Some ''128'')]),
      (''extract.detect'', []),
      (''train.model'', [])]"

definition example_config :: "string faceswap_config" where
  "example_config =
     \<lparr>config = example_parser, defaults = example_defaults, cur_section = [],
      configfile = example_parser\<rparr>"

definition example_dialog :: "string configure_plugins" where
  "example_dialog = new_dialog example_config"

definition example_conf :: gui_dict where
  "example_conf =
     [(''global'', [(''global'', Ref ''global'')]),
      (''extract'', [(''extract.align'', Ref ''extract.align''),
                     (''extract.detect'', Ref ''extract.detect'')]),
      (''train'', [(''train.model'', Ref ''train.model'')])]"

text \<open>
  The values of the example's options after \<open>get_config\<close>: the stored value of
  \<open>opt1\<close> and of \<open>size\<close>, the default of the others.
\<close>

definition example_values :: "string \<Rightarrow> string option" where
  "example_values =
     map_of [(''opt1'', ''7''), (''size'', ''128''), (''threshold'', ''50''),
             (''lowmem'', ''False'')]"

text \<open>
  The example dialog after \<open>get_config\<close>, with the snapshot assigned to
  \<open>self.config_dict_gui\<close>.
\<close>

definition example_loaded :: "string configure_plugins" where
  "example_loaded =
     \<lparr>self_config =
        \<lparr>config = example_parser,
         defaults = example_store example_values (\<lambda>_. None),
         cur_section = ''train.model'',
         configfile = example_parser\<rparr>,
      plugin_info =
        [(''global'', Text ''Options that apply to all plugins''),
         (''extract.align'', Text ''Aligner options''),
         (''extract.detect'', Text ''Detector options''),
         (''train.model'', Text ''Model options'')],
      config_dict_gui = example_conf,
      tabs = [],
      destroyed = False\<rparr>"

text \<open>
  Two calls of \<open>popup_config\<close> for the same configuration.
\<close>

definition example_opens :: "(string \<times> string faceswap_config) list" where
  "example_opens = [(''extract'', example_config), (''extract'', example_config)]"

text \<open>
  The example dialog after \<open>build\<close>: the three tabs, and a widget variable for every
  option, holding the option's value.
\<close>

definition example_tabs :: "(string \<times> string page) list" where
  "example_tabs =
     [(''Global'', ControlPanel (Ref ''global'') (Text ''Options that apply to all plugins'')),
      (''Extract'',
       Notebook
         [(''Align'', ControlPanel (Ref ''extract.align'') (Text ''Aligner options'')),
          (''Detect'', ControlPanel (Ref ''extract.detect'') (Text ''Detector options''))]),
      (''Train'',
       Notebook [(''Model'', ControlPanel (Ref ''train.model'') (Text ''Model options''))])]"

definition example_built :: "string configure_plugins" where
  "example_built =
     example_loaded
       \<lparr>self_config :=
          (self_config example_loaded)\<lparr>defaults := example_store example_values example_values\<rparr>,
        tabs := example_tabs\<rparr>"

text \<open>
  The built example after the user has set \<open>opt1\<close> to 9.
\<close>

definition example_edited :: "string configure_plugins" where
  "example_edited = edit (''global'', ''opt1'', ''9'') example_built"

text \<open>
  A help-text formatter for the example: the text as a comment.
\<close>

definition example_format_help :: "string \<Rightarrow> bool \<Rightarrow> string" where
  "example_format_help h is_section = ''# '' @ h"

text \<open>
  A configuration whose only option has a capital letter in its name, and a dialog on
  it: the dialog is opened and the user sets \<open>Opt1\<close> to 9; the dialog saves; a new
  dialog on the same collaborator loads what was written. Option values are strings, so
  \<open>str\<close> and the collaborator's reading of a stored text leave them as they are.
\<close>

definition example_str :: "string \<Rightarrow> string" where
  "example_str v = v"







section \<open>Properties\<close>

lemma set_remove1_minus: "set (remove1 x xs) - {x} = set xs - {x}"
  by (induction xs) auto

text \<open>
  The list of categories in \<open>build\<close>: \<open>"global"\<close> first when the snapshot has it,
  then the other categories in ascending order.
\<close>

lemma build_categories_order:
  "\<exists>rest. build_categories conf =
            (if ''global'' \<in> set (map fst conf) then ''global'' # rest else rest)
        \<and> sorted rest
        \<and> set rest - {''global''} = set (map fst conf) - {''global''}
        \<and> length (build_categories conf) = length conf"
proof (cases "''global'' \<in> set (map fst conf)")
  case True
  let ?rest = "remove1 ''global'' (sort (map fst conf))"
  have "build_categories conf = ''global'' # ?rest"
    using True by (simp add: build_categories_def)
  moreover have "sorted ?rest"
    by (simp add: sorted_remove1)
  moreover have "set ?rest - {''global''} = set (map fst conf) - {''global''}"
    using set_remove1_minus [of "''global''" "sort (map fst conf)"] by simp
  moreover have "length (''global'' # ?rest) = length conf"
  proof -
    have mem: "''global'' \<in> set (sort (map fst conf))"
      using True by simp
    then have "0 < length (sort (map fst conf))"
      by (rule length_pos_if_in_set)
    with mem show ?thesis
      by (simp add: length_remove1)
  qed
  ultimately show ?thesis
    using True by auto
next
  case False
  then have "build_categories conf = sort (map fst conf)"
    by (simp add: build_categories_def)
  then show ?thesis
    using False by auto
qed

lemma load_entry_idem: "load_entry stored k (load_entry stored k e) = load_entry stored k e"
  by (simp add: load_entry_def set_value_def split: entry.splits option.splits)

lemma get_config_keys_map_of:
  "get_config_keys stored sect keys (info, options) = Inr (info', options') \<Longrightarrow>
   map_of options' k =
     (if k \<in> set keys then map_option (load_entry stored k) (map_of options k)
      else map_of options k)"
proof (induction keys arbitrary: info options)
  case Nil
  then show ?case by simp
next
  case (Cons key keys)
  show ?case
  proof (cases "key = ''helptext''")
    case True
    with Cons.prems obtain e where e: "map_of options key = Some e"
      and rest: "get_config_keys stored sect keys (AList.update sect e info, options)
                   = Inr (info', options')"
      by (auto split: option.splits)
    have "load_entry stored ''helptext'' e = e"
      by (simp add: load_entry_def)
    with Cons.IH [OF rest] True e show ?thesis
      by auto
  next
    case False
    with Cons.prems obtain opt d where e: "map_of options key = Some (Opt opt)"
      and d: "opt_default opt = Some d"
      and rest: "get_config_keys stored sect keys
                   (info, AList.update key (Opt (opt\<lparr>opt_value := Some (dict_get stored key d)\<rparr>)) options)
                   = Inr (info', options')"
      by (auto split: option.splits entry.splits)
    have sv: "load_entry stored key (Opt opt) = Opt (opt\<lparr>opt_value := Some (dict_get stored key d)\<rparr>)"
      using False d by (simp add: load_entry_def set_value_def)
    from Cons.IH [OF rest] e sv show ?thesis
      using load_entry_idem [of stored key "Opt opt"]
      by (auto simp: update_conv')
  qed
qed

lemma get_config_keys_typed:
  "get_config_keys stored sect keys (info, options) = Inr (info', options') \<Longrightarrow>
   k \<in> set keys \<Longrightarrow> k \<noteq> ''helptext'' \<Longrightarrow>
   \<exists>opt d. map_of options k = Some (Opt opt) \<and> opt_default opt = Some d"
proof (induction keys arbitrary: info options)
  case Nil
  then show ?case by simp
next
  case (Cons key keys)
  show ?case
  proof (cases "key = ''helptext''")
    case True
    with Cons.prems obtain e where
      rest: "get_config_keys stored sect keys (AList.update sect e info, options)
                   = Inr (info', options')"
      by (auto split: option.splits)
    from Cons.IH [OF rest] Cons.prems True show ?thesis
      by auto
  next
    case False
    with Cons.prems obtain opt d where e: "map_of options key = Some (Opt opt)"
      and d: "opt_default opt = Some d"
      and rest: "get_config_keys stored sect keys
                   (info, AList.update key (Opt (opt\<lparr>opt_value := Some (dict_get stored key d)\<rparr>)) options)
                   = Inr (info', options')"
      by (auto split: option.splits entry.splits)
    show ?thesis
    proof (cases "k = key")
      case True
      with e d show ?thesis by simp
    next
      case False
      with Cons.prems have "k \<in> set keys" by simp
      from Cons.IH [OF rest this Cons.prems(3)] False show ?thesis
        by (simp add: update_conv')
    qed
  qed
qed

lemma get_config_keys_info:
  "get_config_keys stored sect keys (info, options) = Inr (info', options') \<Longrightarrow>
   info' = (if ''helptext'' \<in> set keys
            then (case map_of options ''helptext'' of Some e \<Rightarrow> AList.update sect e info | None \<Rightarrow> info)
            else info)"
proof (induction keys arbitrary: info options)
  case Nil
  then show ?case by simp
next
  case (Cons key keys)
  show ?case
  proof (cases "key = ''helptext''")
    case True
    with Cons.prems obtain e where e: "map_of options key = Some e"
      and rest: "get_config_keys stored sect keys (AList.update sect e info, options)
                   = Inr (info', options')"
      by (auto split: option.splits)
    from Cons.IH [OF rest] True e show ?thesis
      by auto
  next
    case False
    with Cons.prems obtain opt d where e: "map_of options key = Some (Opt opt)"
      and d: "opt_default opt = Some d"
      and rest: "get_config_keys stored sect keys
                   (info, AList.update key (Opt (opt\<lparr>opt_value := Some (dict_get stored key d)\<rparr>)) options)
                   = Inr (info', options')"
      by (auto split: option.splits entry.splits)
    from Cons.IH [OF rest] False show ?thesis
      by (auto simp: update_conv')
  qed
qed

lemma get_config_keys_keys:
  "get_config_keys stored sect keys (info, options) = Inr (info', options') \<Longrightarrow>
   map fst options' = map fst options"
proof (induction keys arbitrary: info options)
  case Nil
  then show ?case by simp
next
  case (Cons key keys)
  show ?case
  proof (cases "key = ''helptext''")
    case True
    with Cons.prems obtain e where
      rest: "get_config_keys stored sect keys (AList.update sect e info, options)
                   = Inr (info', options')"
      by (auto split: option.splits)
    from Cons.IH [OF rest] show ?thesis .
  next
    case False
    with Cons.prems obtain opt d where e: "map_of options key = Some (Opt opt)"
      and rest: "get_config_keys stored sect keys
                   (info, AList.update key (Opt (opt\<lparr>opt_value := Some (dict_get stored key d)\<rparr>)) options)
                   = Inr (info', options')"
      by (auto split: option.splits entry.splits)
    from e have "key \<in> fst ` set options"
      by (meson domI domIff map_of_eq_None_iff)
    with Cons.IH [OF rest] show ?thesis
      by (simp add: update_keys)
  qed
qed

lemma get_config_keys_all:
  assumes "get_config_keys stored sect (map fst options) (info, options) = Inr (info', options')"
  shows "map_of options' k = map_option (load_entry stored k) (map_of options k)"
proof (cases "k \<in> set (map fst options)")
  case True
  with get_config_keys_map_of [OF assms, of k] show ?thesis by simp
next
  case False
  then have "map_of options k = None"
    by (simp add: map_of_eq_None_iff)
  with False get_config_keys_map_of [OF assms, of k] show ?thesis by simp
qed

lemma get_config_sections_ConsE:
  assumes "get_config_sections cd (sect # rest) (conf, dlg) = Inr res"
  obtains options info1 options1 where
    "map_of (defaults (self_config dlg)) sect = Some options"
    "get_config_keys (cd (config (self_config dlg)) sect) sect (map fst options)
       (plugin_info dlg, options) = Inr (info1, options1)"
    "get_config_sections cd rest (load_conf sect conf, load_dlg sect info1 options1 dlg) = Inr res"
  using assms
  by (auto simp: Let_def load_conf_def load_dlg_def split: option.splits sum.splits)

lemma get_config_sections_frame:
  "get_config_sections cd secs (conf, dlg) = Inr (conf', dlg') \<Longrightarrow>
   config (self_config dlg') = config (self_config dlg)
   \<and> configfile (self_config dlg') = configfile (self_config dlg)
   \<and> map fst (defaults (self_config dlg')) = map fst (defaults (self_config dlg))
   \<and> config_dict_gui dlg' = config_dict_gui dlg
   \<and> tabs dlg' = tabs dlg
   \<and> destroyed dlg' = destroyed dlg"
proof (induction secs arbitrary: conf dlg)
  case Nil
  then show ?case by simp
next
  case (Cons sect rest)
  from Cons.prems obtain options info1 options1 where
    o: "map_of (defaults (self_config dlg)) sect = Some options"
    and r: "get_config_sections cd rest (load_conf sect conf, load_dlg sect info1 options1 dlg)
              = Inr (conf', dlg')"
    by (rule get_config_sections_ConsE)
  from o have "sect \<in> fst ` set (defaults (self_config dlg))"
    by (meson domI domIff map_of_eq_None_iff)
  with Cons.IH [OF r] show ?case
    by (simp add: load_dlg_def update_keys)
qed

lemma gui_inv_empty: "gui_inv {} []"
  by (simp add: gui_inv_def)

lemma gui_inv_NoneD:
  assumes "gui_inv S conf" "map_of conf c = None"
  shows "\<forall>s\<in>S. split_first s \<noteq> c"
proof -
  from assms(1) have "case map_of conf c of
            None \<Rightarrow> \<forall>s\<in>S. split_first s \<noteq> c
          | Some secs \<Rightarrow>
              distinct (map fst secs) \<and> secs \<noteq> [] \<and>
              (\<forall>s. map_of secs s = (if s \<in> S \<and> split_first s = c then Some (Ref s) else None))"
    unfolding gui_inv_def by blast
  with assms(2) show ?thesis by simp
qed

lemma gui_inv_SomeD:
  assumes "gui_inv S conf" "map_of conf c = Some secs"
  shows "distinct (map fst secs)" "secs \<noteq> []"
    "map_of secs s = (if s \<in> S \<and> split_first s = c then Some (Ref s) else None)"
proof -
  from assms(1) have "case map_of conf c of
            None \<Rightarrow> \<forall>s\<in>S. split_first s \<noteq> c
          | Some secs \<Rightarrow>
              distinct (map fst secs) \<and> secs \<noteq> [] \<and>
              (\<forall>s. map_of secs s = (if s \<in> S \<and> split_first s = c then Some (Ref s) else None))"
    unfolding gui_inv_def by blast
  with assms(2) show "distinct (map fst secs)" "secs \<noteq> []"
    "map_of secs s = (if s \<in> S \<and> split_first s = c then Some (Ref s) else None)"
    by simp_all
qed

lemma gui_inv_step:
  assumes "gui_inv S conf"
  shows "gui_inv (insert sect S) (load_conf sect conf)"
proof -
  let ?c = "split_first sect"
  let ?old = "dict_get conf ?c []"
  have d1: "distinct (map fst (load_conf sect conf))"
    using assms by (simp add: gui_inv_def load_conf_def distinct_update)
  have old: "distinct (map fst ?old) \<and>
      (\<forall>s. map_of ?old s = (if s \<in> S \<and> split_first s = ?c then Some (Ref s) else None))"
  proof (cases "map_of conf ?c")
    case None
    from gui_inv_NoneD [OF assms None] None show ?thesis
      by (auto simp: dict_get_def)
  next
    case (Some secs)
    from gui_inv_SomeD [OF assms Some] Some show ?thesis
      by (simp add: dict_get_def)
  qed
  have "case map_of (load_conf sect conf) c of
            None \<Rightarrow> \<forall>s\<in>insert sect S. split_first s \<noteq> c
          | Some secs \<Rightarrow>
              distinct (map fst secs) \<and> secs \<noteq> [] \<and>
              (\<forall>s. map_of secs s =
                 (if s \<in> insert sect S \<and> split_first s = c then Some (Ref s) else None))" for c
  proof (cases "c = ?c")
    case True
    with old show ?thesis
      by (auto simp: load_conf_def update_conv' distinct_update)
  next
    case False
    with assms have "case map_of conf c of
            None \<Rightarrow> \<forall>s\<in>S. split_first s \<noteq> c
          | Some secs \<Rightarrow>
              distinct (map fst secs) \<and> secs \<noteq> [] \<and>
              (\<forall>s. map_of secs s = (if s \<in> S \<and> split_first s = c then Some (Ref s) else None))"
      by (simp add: gui_inv_def)
    with False show ?thesis
      by (auto simp: load_conf_def update_conv' split: option.splits)
  qed
  with d1 show ?thesis
    by (simp add: gui_inv_def)
qed

lemma get_config_sections_gui_inv:
  "get_config_sections cd secs (conf, dlg) = Inr (conf', dlg') \<Longrightarrow> gui_inv S conf \<Longrightarrow>
   gui_inv (S \<union> set secs) conf'"
proof (induction secs arbitrary: conf dlg S)
  case Nil
  then show ?case by simp
next
  case (Cons sect rest)
  from Cons.prems(1) obtain info1 options1 where
    r: "get_config_sections cd rest (load_conf sect conf, load_dlg sect info1 options1 dlg)
              = Inr (conf', dlg')"
    by (rule get_config_sections_ConsE)
  from Cons.IH [OF r gui_inv_step [OF Cons.prems(2)]] show ?case
    by simp
qed

lemma load_dlg_simps:
  "config (self_config (load_dlg sect info options' dlg)) = config (self_config dlg)"
  "defaults (self_config (load_dlg sect info options' dlg))
     = AList.update sect options' (defaults (self_config dlg))"
  by (simp_all add: load_dlg_def)

lemma get_config_sections_defaults:
  "get_config_sections cd secs (conf, dlg) = Inr (conf', dlg') \<Longrightarrow>
   (s \<notin> set secs \<longrightarrow>
      map_of (defaults (self_config dlg')) s = map_of (defaults (self_config dlg)) s) \<and>
   (s \<in> set secs \<longrightarrow>
      (\<exists>opts0 opts'.
          map_of (defaults (self_config dlg)) s = Some opts0 \<and>
          map_of (defaults (self_config dlg')) s = Some opts' \<and>
          map fst opts' = map fst opts0 \<and>
          (\<forall>k. map_of opts' k =
                 map_option (load_entry (cd (config (self_config dlg)) s) k) (map_of opts0 k)) \<and>
          (\<forall>k e. map_of opts0 k = Some e \<longrightarrow> k \<noteq> ''helptext'' \<longrightarrow>
                 (\<exists>opt d. e = Opt opt \<and> opt_default opt = Some d))))"
proof (induction secs arbitrary: conf dlg)
  case Nil
  then show ?case by simp
next
  case (Cons sect rest)
  let ?p = "config (self_config dlg)"
  from Cons.prems obtain options info1 options1 where
    o: "map_of (defaults (self_config dlg)) sect = Some options"
    and k: "get_config_keys (cd ?p sect) sect (map fst options)
              (plugin_info dlg, options) = Inr (info1, options1)"
    and r: "get_config_sections cd rest (load_conf sect conf, load_dlg sect info1 options1 dlg)
              = Inr (conf', dlg')"
    by (rule get_config_sections_ConsE)
  let ?dlg1 = "load_dlg sect info1 options1 dlg"
  note IH = Cons.IH [OF r, unfolded load_dlg_simps update_conv']
  have keys1: "map fst options1 = map fst options"
    using k by (rule get_config_keys_keys)
  have map1: "map_of options1 k = map_option (load_entry (cd ?p sect) k) (map_of options k)" for k
    using k by (rule get_config_keys_all)
  have typed: "\<exists>opt d. e = Opt opt \<and> opt_default opt = Some d"
    if "map_of options k = Some e" "k \<noteq> ''helptext''" for k e
  proof -
    from that(1) have "k \<in> set (map fst options)"
      by (metis domI domIff map_of_eq_None_iff set_map)
    from get_config_keys_typed [OF k this that(2)] that(1) show ?thesis by auto
  qed
  show ?case
  proof (cases "s = sect")
    case False
    with IH show ?thesis by auto
  next
    case True
    show ?thesis
    proof (cases "sect \<in> set rest")
      case False
      with IH True have "map_of (defaults (self_config dlg')) sect = Some options1"
        by simp
      with True o keys1 map1 typed show ?thesis
        by auto
    next
      case True2: True
      with IH True obtain opts' where
        f: "map_of (defaults (self_config dlg')) sect = Some opts'"
        and fk: "map fst opts' = map fst options1"
        and fm: "\<And>k. map_of opts' k
                   = map_option (load_entry (cd ?p sect) k) (map_of options1 k)"
        by auto
      have "map_of opts' k = map_option (load_entry (cd ?p sect) k) (map_of options k)" for k
        unfolding fm map1
        by (cases "map_of options k") (simp_all add: load_entry_idem)
      with True o f fk keys1 typed show ?thesis
        by auto
    qed
  qed
qed

lemma get_config_gui_inv:
  assumes "get_config cd dlg = Inr (conf, dlg')"
  shows "gui_inv (set (map fst (config (self_config dlg)))) conf"
  using get_config_sections_gui_inv [OF assms [unfolded get_config_def] gui_inv_empty]
  by simp

lemma gui_inv_section:
  assumes "gui_inv S conf"
  shows "gui_section conf c s = (if s \<in> S \<and> split_first s = c then Inr (Ref s) else
           (case map_of conf c of None \<Rightarrow> Inl (KeyError c) | Some _ \<Rightarrow> Inl (KeyError s)))"
proof (cases "map_of conf c")
  case None
  from gui_inv_NoneD [OF assms None] None show ?thesis
    by (auto simp: gui_section_def)
next
  case (Some secs)
  from gui_inv_SomeD(3) [OF assms Some, of s] Some show ?thesis
    by (auto simp: gui_section_def)
qed

text \<open>
  C3. Load default fallback: when \<open>get_config\<close> returns, then for every section of the
  parser and every key of its options other than \<open>"helptext"\<close>, the entry is an option
  with a default, and the option the snapshot shows for it is the option of the defaults
  with \<open>"value"\<close> set to the stored value for that key (\<open>config_dict\<close> for the section)
  when there is one, and to the option's default otherwise.
\<close>

theorem get_config_value_stored_or_default:
  assumes load: "get_config cd dlg = Inr (conf, dlg')"
    and sect: "sect \<in> set (map fst (config (self_config dlg)))"
    and options: "map_of (defaults (self_config dlg)) sect = Some options"
    and key: "map_of options key = Some e" "key \<noteq> ''helptext''"
  shows "\<exists>opt d. e = Opt opt \<and> opt_default opt = Some d \<and>
           gui_option dlg' conf (split_first sect) sect key =
             Inr (opt\<lparr>opt_value :=
                    Some (case map_of (cd (config (self_config dlg)) sect) key of
                            Some v \<Rightarrow> v
                          | None \<Rightarrow> d)\<rparr>)"
proof -
  let ?stored = "cd (config (self_config dlg)) sect"
  from get_config_sections_defaults [OF load [unfolded get_config_def], of sect] sect options
  obtain opts' where
    o': "map_of (defaults (self_config dlg')) sect = Some opts'"
    and m: "\<And>k. map_of opts' k = map_option (load_entry ?stored k) (map_of options k)"
    and t: "\<And>k e. map_of options k = Some e \<Longrightarrow> k \<noteq> ''helptext'' \<Longrightarrow>
              \<exists>opt d. e = Opt opt \<and> opt_default opt = Some d"
    by auto
  from t [OF key] obtain opt d where e: "e = Opt opt" and d: "opt_default opt = Some d"
    by auto
  have "map_of opts' key = Some (Opt (opt\<lparr>opt_value := Some (dict_get ?stored key d)\<rparr>))"
    using m [of key] key e d by (simp add: load_entry_def set_value_def)
  moreover have "gui_section conf (split_first sect) sect = Inr (Ref sect)"
    using gui_inv_section [OF get_config_gui_inv [OF load]] sect by simp
  ultimately have "gui_option dlg' conf (split_first sect) sect key =
      Inr (opt\<lparr>opt_value := Some (dict_get ?stored key d)\<rparr>)"
    using o' by (simp add: gui_option_def deref_def option_of_def)
  with e d show ?thesis
    by (auto simp: dict_get_def)
qed

text \<open>
  C6. Category partition: when \<open>get_config\<close> returns the snapshot \<open>conf\<close>, its
  categories are distinct, they are exactly the prefixes (the text before the first full
  stop, the whole name when there is none) of the parser's sections, and a section name is
  a key of the category \<open>c\<close> exactly when it is a section of the parser and \<open>c\<close> is its
  prefix: every section is in exactly one category.
\<close>

theorem get_config_partitions_sections:
  assumes load: "get_config cd dlg = Inr (conf, dlg')"
  shows "distinct (map fst conf)
       \<and> set (map fst conf) = split_first ` set (map fst (config (self_config dlg)))
       \<and> (\<forall>c s. (\<exists>secs. map_of conf c = Some secs \<and> s \<in> set (map fst secs))
                 \<longleftrightarrow> (s \<in> set (map fst (config (self_config dlg))) \<and> c = split_first s))"
proof -
  let ?S = "set (map fst (config (self_config dlg)))"
  have inv: "gui_inv ?S conf"
    using load by (rule get_config_gui_inv)
  have iff: "(\<exists>secs. map_of conf c = Some secs \<and> s \<in> set (map fst secs))
                 \<longleftrightarrow> (s \<in> ?S \<and> c = split_first s)" for c s
  proof (cases "map_of conf c")
    case None
    from gui_inv_NoneD [OF inv None] None show ?thesis by auto
  next
    case (Some secs)
    have "map_of secs s = (if s \<in> ?S \<and> split_first s = c then Some (Ref s) else None)"
      using inv Some by (rule gui_inv_SomeD(3))
    moreover have "s \<in> set (map fst secs) \<longleftrightarrow> map_of secs s \<noteq> None"
      by (simp add: map_of_eq_None_iff)
    ultimately show ?thesis using Some by auto
  qed
  have keys: "c \<in> set (map fst conf) \<longleftrightarrow> c \<in> split_first ` ?S" for c
  proof (cases "map_of conf c")
    case None
    have "\<forall>s\<in>?S. split_first s \<noteq> c"
      using inv None by (rule gui_inv_NoneD)
    moreover from None have "c \<notin> set (map fst conf)"
      by (simp add: map_of_eq_None_iff)
    ultimately show ?thesis by auto
  next
    case (Some secs)
    have ne: "secs \<noteq> []"
      and m: "\<And>s. map_of secs s = (if s \<in> ?S \<and> split_first s = c then Some (Ref s) else None)"
      using gui_inv_SomeD [OF inv Some] by blast+
    from ne obtain a b list where "secs = (a, b) # list"
      by (cases secs) auto
    then have "map_of secs a = Some b"
      by simp
    then obtain s r where "map_of secs s = Some r" ..
    with m [of s] have "s \<in> ?S \<and> split_first s = c"
      by (auto split: if_splits)
    moreover from Some have "c \<in> set (map fst conf)"
      by (metis domI domIff map_of_eq_None_iff set_map)
    ultimately show ?thesis by auto
  qed
  from inv have "distinct (map fst conf)"
    by (simp add: gui_inv_def)
  with iff keys show ?thesis
    by blast
qed

lemma map_of_foldl_update:
  "map_of (foldl (\<lambda>acc (k, v). AList.update k v acc) acc xs) = map_of acc ++ map_of (rev xs)"
  by (induction xs arbitrary: acc) (auto simp: update_conv' map_add_def fun_eq_iff split: option.splits)

lemma map_of_map_self:
  "map_of (map (\<lambda>x. (x, f x)) xs) k = (if k \<in> set xs then Some (f k) else None)"
  by (induction xs) auto

lemma in_concat_keys:
  "s \<in> set (map fst (concat (map snd conf))) \<Longrightarrow>
   \<exists>c secs. (c, secs) \<in> set conf \<and> s \<in> set (map fst secs)"
proof (induction conf)
  case Nil
  then show ?case by simp
next
  case (Cons x conf)
  show ?case
  proof (cases "s \<in> set (map fst (snd x))")
    case True
    then have "(fst x, snd x) \<in> set (x # conf) \<and> s \<in> set (map fst (snd x))"
      by simp
    then show ?thesis by (intro exI)
  next
    case False
    with Cons.prems have "s \<in> set (map fst (concat (map snd conf)))"
      by auto
    from Cons.IH [OF this] show ?thesis
      by auto
  qed
qed

lemma distinct_concat_keys:
  "distinct (map fst conf) \<Longrightarrow>
   (\<And>c secs. (c, secs) \<in> set conf \<Longrightarrow>
      distinct (map fst secs) \<and> (\<forall>s\<in>set (map fst secs). f s = c)) \<Longrightarrow>
   distinct (map fst (concat (map snd conf)))"
proof (induction conf)
  case Nil
  show ?case by simp
next
  case (Cons x conf)
  obtain c secs where x: "x = (c, secs)" by (cases x)
  from Cons.prems(1) x have d: "distinct (map fst conf)" and c: "c \<notin> set (map fst conf)"
    by simp_all
  have rest: "distinct (map fst (concat (map snd conf)))"
    using d Cons.prems(2) by (intro Cons.IH) auto
  from Cons.prems(2) [of c secs] x have here: "distinct (map fst secs)"
    and f: "\<forall>s\<in>set (map fst secs). f s = c"
    by simp_all
  have "f s \<in> set (map fst conf)" if "s \<in> set (map fst (concat (map snd conf)))" for s
  proof -
    from in_concat_keys [OF that] obtain c' secs' where
      m: "(c', secs') \<in> set conf" and s: "s \<in> set (map fst secs')"
      by (elim exE conjE)
    from Cons.prems(2) [of c' secs'] m s have "f s = c'" by auto
    with m show ?thesis by force
  qed
  with f c have "set (map fst secs) \<inter> set (map fst (concat (map snd conf))) = {}"
    by (auto simp del: set_map set_concat)
  with here rest x show ?case
    by simp
qed

lemma gui_inv_flat_distinct:
  assumes inv: "gui_inv S conf"
  shows "distinct (map fst (concat (map snd conf)))"
proof (rule distinct_concat_keys [where f = split_first])
  from inv show d: "distinct (map fst conf)"
    by (simp add: gui_inv_def)
  fix c secs assume "(c, secs) \<in> set conf"
  with d have mc: "map_of conf c = Some secs" by simp
  have "split_first s = c" if "s \<in> set (map fst secs)" for s
  proof -
    from that have "map_of secs s \<noteq> None"
      by (simp add: map_of_eq_None_iff)
    with gui_inv_SomeD(3) [OF inv mc, of s] show ?thesis
      by (simp split: if_splits)
  qed
  with gui_inv_SomeD(1) [OF inv mc]
  show "distinct (map fst secs) \<and> (\<forall>s\<in>set (map fst secs). split_first s = c)"
    by blast
qed

lemma flatten_gui_inv:
  assumes inv: "gui_inv S conf"
  shows "map_of (flatten_gui conf) s = (if s \<in> S then Some (Ref s) else None)"
proof -
  let ?xs = "rev (concat (map snd conf))"
  have mem: "r = Ref s' \<and> s' \<in> S" if "(s', r) \<in> set ?xs" for s' r
  proof -
    from that obtain c secs where c: "(c, secs) \<in> set conf" and s: "(s', r) \<in> set secs"
      by auto
    from inv c have mc: "map_of conf c = Some secs"
      by (simp add: gui_inv_def)
    have ds: "distinct (map fst secs)"
      and m: "map_of secs s' = (if s' \<in> S \<and> split_first s' = c then Some (Ref s') else None)"
      using gui_inv_SomeD [OF inv mc] by blast+
    from ds s have "map_of secs s' = Some r" by simp
    with m show ?thesis by (auto split: if_splits)
  qed
  have ex: "\<exists>r. (s', r) \<in> set ?xs" if "s' \<in> S" for s'
  proof -
    from gui_inv_section [OF inv, of "split_first s'" s'] that
    obtain secs where "map_of conf (split_first s') = Some secs" "map_of secs s' = Some (Ref s')"
      by (auto simp: gui_section_def split: option.splits)
    then have "(split_first s', secs) \<in> set conf" "(s', Ref s') \<in> set secs"
      by (auto dest: map_of_SomeD)
    then show ?thesis by force
  qed
  have "map_of ?xs s = (if s \<in> S then Some (Ref s) else None)"
  proof (cases "map_of ?xs s")
    case None
    then have "s \<notin> fst ` set ?xs" by (simp add: map_of_eq_None_iff)
    with ex [of s] have "s \<notin> S" by force
    with None show ?thesis by simp
  next
    case (Some r)
    then have "(s, r) \<in> set ?xs" by (rule map_of_SomeD)
    from mem [OF this] Some show ?thesis by simp
  qed
  then show ?thesis
    by (simp add: flatten_gui_def map_of_foldl_update)
qed

text \<open>
  C9. Flattening: the dictionary \<open>options\<close> that \<open>save_config\<close> rebuilds from the
  snapshot of \<open>get_config\<close> is, as a mapping, the one \<open>get_config\<close> recorded: every
  section of the parser, and no other name, mapped to the reference to its own options
  object. No section name occurs twice among the categories, so the comprehension
  replaces no entry.
\<close>

theorem flatten_gui_get_config:
  assumes load: "get_config cd dlg = Inr (conf, dlg')"
  shows "map_of (flatten_gui conf)
           = map_of (map (\<lambda>sect. (sect, Ref sect)) (map fst (config (self_config dlg))))
       \<and> distinct (map fst (concat (map snd conf)))"
proof
  let ?sections = "map fst (config (self_config dlg))"
  have inv: "gui_inv (set ?sections) conf"
    using load by (rule get_config_gui_inv)
  show "map_of (flatten_gui conf) = map_of (map (\<lambda>sect. (sect, Ref sect)) ?sections)"
  proof
    fix s
    have "map_of (flatten_gui conf) s = (if s \<in> set ?sections then Some (Ref s) else None)"
      using inv by (rule flatten_gui_inv)
    also have "\<dots> = map_of (map (\<lambda>sect. (sect, Ref sect)) ?sections) s"
      by (rule map_of_map_self [symmetric])
    finally show "map_of (flatten_gui conf) s
        = map_of (map (\<lambda>sect. (sect, Ref sect)) ?sections) s" .
  qed
  show "distinct (map fst (concat (map snd conf)))"
    using inv by (rule gui_inv_flat_distinct)
qed

lemma split_first_no_dot: "CHR ''.'' \<notin> set s \<Longrightarrow> split_first s = s"
  by (auto simp: split_first_def takeWhile_eq_all_conv)

text \<open>
  C10. Reset's lookup: for a section of the parser, which \<open>get_config\<close> has loaded, the
  two keys of \<open>lookup\<close> find the section's entry in the snapshot, and the entry is the
  reference to the options object that \<open>defaults\<close> holds for the section (the object
  whose items \<open>reset\<close> goes through).
\<close>

theorem reset_lookup_finds_loaded_section:
  assumes load: "get_config cd dlg = Inr (conf, dlg')"
    and sect: "sect \<in> set (map fst (config (self_config dlg)))"
  shows "gui_section conf (fst (reset_lookup sect)) (snd (reset_lookup sect)) = Inr (Ref sect)
       \<and> (\<exists>options. map_of (defaults (self_config dlg')) sect = Some options
                   \<and> deref dlg' (Ref sect) = Inr options)"
proof -
  have "reset_lookup sect = (split_first sect, sect)"
    by (simp add: reset_lookup_def split_first_no_dot)
  moreover have "gui_section conf (split_first sect) sect = Inr (Ref sect)"
    using gui_inv_section [OF get_config_gui_inv [OF load]] sect by simp
  moreover from get_config_sections_defaults [OF load [unfolded get_config_def], of sect] sect
  obtain options where "map_of (defaults (self_config dlg')) sect = Some options"
    by auto
  ultimately show ?thesis
    by (simp add: deref_def)
qed

lemmas example_defs =
  example_dialog_def new_dialog_def example_config_def
  example_parser_def example_defaults_def example_store_def example_entry_def
  example_values_def
  example_conf_def config_dict_def get_config_def dict_get_def split_first_def
  List.map_filter_def Let_def

lemma example_load:
  "\<exists>dlg'. get_config (config_dict (\<lambda>_ _ y. y)) example_dialog = Inr (example_conf, dlg')"
  by (simp add: example_defs)

text \<open>
  On the example: \<open>opt1\<close> of \<open>global\<close> has the stored value 7 and shows it,
  \<open>threshold\<close> of \<open>extract.detect\<close> has none and shows its default 50.
\<close>

theorem get_config_value_stored_or_default_witness:
  "\<exists>conf dlg'. get_config (config_dict (\<lambda>_ _ y. y)) example_dialog = Inr (conf, dlg')
     \<and> gui_option dlg' conf ''global'' ''global'' ''opt1''
          = Inr \<lparr>opt_default = Some ''5'', opt_helptext = Some ''The first option'',
                 opt_value = Some ''7'', opt_selected = None\<rparr>
     \<and> gui_option dlg' conf ''extract'' ''extract.detect'' ''threshold''
          = Inr \<lparr>opt_default = Some ''50'', opt_helptext = Some ''The confidence threshold'',
                 opt_value = Some ''50'', opt_selected = None\<rparr>"
proof -
  obtain dlg' where
    e: "get_config (config_dict (\<lambda>_ _ y. y)) example_dialog = Inr (example_conf, dlg')"
    using example_load by blast
  have s1: "''global'' \<in> set (map fst (config (self_config example_dialog)))"
    and s2: "''extract.detect'' \<in> set (map fst (config (self_config example_dialog)))"
    by (simp_all add: example_dialog_def new_dialog_def example_config_def example_parser_def)
  have o1: "map_of (defaults (self_config example_dialog)) ''global''
              = Some (the (map_of example_defaults ''global''))"
    and o2: "map_of (defaults (self_config example_dialog)) ''extract.detect''
              = Some (the (map_of example_defaults ''extract.detect''))"
    by (simp_all add: example_dialog_def new_dialog_def example_config_def
          example_defaults_def example_store_def)
  have k1: "map_of (the (map_of example_defaults ''global'')) ''opt1''
              = Some (example_entry ''5'' ''The first option'' None None)"
    and k2: "map_of (the (map_of example_defaults ''extract.detect'')) ''threshold''
              = Some (example_entry ''50'' ''The confidence threshold'' None None)"
    by (simp_all add: example_defaults_def example_store_def)
  have "gui_option dlg' example_conf ''global'' ''global'' ''opt1''
          = Inr \<lparr>opt_default = Some ''5'', opt_helptext = Some ''The first option'',
                 opt_value = Some ''7'', opt_selected = None\<rparr>"
    using get_config_value_stored_or_default [OF e s1 o1 k1]
    by (auto simp: example_defs)
  moreover have "gui_option dlg' example_conf ''extract'' ''extract.detect'' ''threshold''
          = Inr \<lparr>opt_default = Some ''50'', opt_helptext = Some ''The confidence threshold'',
                 opt_value = Some ''50'', opt_selected = None\<rparr>"
    using get_config_value_stored_or_default [OF e s2 o2 k2]
    by (auto simp: example_defs)
  ultimately show ?thesis using e by blast
qed

text \<open>
  On the example: three categories; \<open>extract.align\<close> is under \<open>extract\<close> and not under \<open>train\<close>.
\<close>

theorem get_config_partitions_sections_witness:
  "\<exists>conf dlg'. get_config (config_dict (\<lambda>_ _ y. y)) example_dialog = Inr (conf, dlg')
     \<and> distinct (map fst conf)
     \<and> set (map fst conf) = {''global'', ''extract'', ''train''}
     \<and> (\<exists>secs. map_of conf ''extract'' = Some secs \<and> ''extract.align'' \<in> set (map fst secs))
     \<and> \<not> (\<exists>secs. map_of conf ''train'' = Some secs \<and> ''extract.align'' \<in> set (map fst secs))"
proof -
  obtain dlg' where
    e: "get_config (config_dict (\<lambda>_ _ y. y)) example_dialog = Inr (example_conf, dlg')"
    using example_load by blast
  note t = get_config_partitions_sections [OF e]
  have s: "map fst (config (self_config example_dialog))
             = [''global'', ''extract.align'', ''extract.detect'', ''train.model'']"
    by (simp add: example_defs)
  from t have "distinct (map fst example_conf)"
    by blast
  moreover from t have "set (map fst example_conf) = {''global'', ''extract'', ''train''}"
    unfolding s by (auto simp: split_first_def)
  moreover from t have "(\<exists>secs. map_of example_conf ''extract'' = Some secs
                              \<and> ''extract.align'' \<in> set (map fst secs))
      \<longleftrightarrow> (''extract.align'' \<in> set (map fst (config (self_config example_dialog)))
           \<and> ''extract'' = split_first ''extract.align'')"
    by blast
  then have "\<exists>secs. map_of example_conf ''extract'' = Some secs
                   \<and> ''extract.align'' \<in> set (map fst secs)"
    unfolding s by (simp add: split_first_def)
  moreover from t have "(\<exists>secs. map_of example_conf ''train'' = Some secs
                              \<and> ''extract.align'' \<in> set (map fst secs))
      \<longleftrightarrow> (''extract.align'' \<in> set (map fst (config (self_config example_dialog)))
           \<and> ''train'' = split_first ''extract.align'')"
    by blast
  then have "\<not> (\<exists>secs. map_of example_conf ''train'' = Some secs
                   \<and> ''extract.align'' \<in> set (map fst secs))"
    unfolding s by (simp add: split_first_def)
  ultimately show ?thesis using e by blast
qed

text \<open>
  On the example: the four sections, each with the reference to its own object.
\<close>

theorem flatten_gui_get_config_witness:
  "\<exists>conf dlg'. get_config (config_dict (\<lambda>_ _ y. y)) example_dialog = Inr (conf, dlg')
     \<and> map_of (flatten_gui conf)
         = map_of [(''global'', Ref ''global''), (''extract.align'', Ref ''extract.align''),
                   (''extract.detect'', Ref ''extract.detect''),
                   (''train.model'', Ref ''train.model'')]
     \<and> distinct (map fst (concat (map snd conf)))"
proof -
  obtain dlg' where
    e: "get_config (config_dict (\<lambda>_ _ y. y)) example_dialog = Inr (example_conf, dlg')"
    using example_load by blast
  have s: "map fst (config (self_config example_dialog))
             = [''global'', ''extract.align'', ''extract.detect'', ''train.model'']"
    by (simp add: example_defs)
  from flatten_gui_get_config [OF e] have "map_of (flatten_gui example_conf)
         = map_of [(''global'', Ref ''global''), (''extract.align'', Ref ''extract.align''),
                   (''extract.detect'', Ref ''extract.detect''),
                   (''train.model'', Ref ''train.model'')]
     \<and> distinct (map fst (concat (map snd example_conf)))"
    unfolding s by simp
  with e have "get_config (config_dict (\<lambda>_ _ y. y)) example_dialog = Inr (example_conf, dlg')
     \<and> map_of (flatten_gui example_conf)
         = map_of [(''global'', Ref ''global''), (''extract.align'', Ref ''extract.align''),
                   (''extract.detect'', Ref ''extract.detect''),
                   (''train.model'', Ref ''train.model'')]
     \<and> distinct (map fst (concat (map snd example_conf)))"
    by simp
  then show ?thesis by (intro exI)
qed

text \<open>
  On the example: the section \<open>extract.align\<close> is found under \<open>extract\<close>.
\<close>

theorem reset_lookup_finds_loaded_section_witness:
  "\<exists>conf dlg'. get_config (config_dict (\<lambda>_ _ y. y)) example_dialog = Inr (conf, dlg')
     \<and> reset_lookup ''extract.align'' = (''extract'', ''extract.align'')
     \<and> gui_section conf ''extract'' ''extract.align'' = Inr (Ref ''extract.align'')
     \<and> (\<exists>options. deref dlg' (Ref ''extract.align'') = Inr options)"
proof -
  obtain dlg' where
    e: "get_config (config_dict (\<lambda>_ _ y. y)) example_dialog = Inr (example_conf, dlg')"
    using example_load by blast
  have s: "''extract.align'' \<in> set (map fst (config (self_config example_dialog)))"
    by (simp add: example_defs)
  have l: "reset_lookup ''extract.align'' = (''extract'', ''extract.align'')"
    by (simp add: reset_lookup_def split_first_def)
  from reset_lookup_finds_loaded_section [OF e s] l e show ?thesis
    by auto
qed

lemma bind_simps [simp]:
  "bind (Inr x) f = f x"
  "bind (Inl e) f = Inl e"
  by (simp_all add: bind_def)

lemma bind_Inr_iff: "bind m f = Inr y \<longleftrightarrow> (\<exists>x. m = Inr x \<and> f x = Inr y)"
  by (cases m) simp_all

lemma same_frame_refl: "same_frame dlg dlg"
  by (simp add: same_frame_def)

lemma same_frame_trans: "same_frame a b \<Longrightarrow> same_frame b c \<Longrightarrow> same_frame a c"
  by (simp add: same_frame_def)

lemma store_option_frame: "same_frame dlg (store_option r item opt dlg)"
  by (cases r) (simp add: same_frame_def store_option_def)

lemma store_option_tabs: "tabs (store_option r item opt dlg) = tabs dlg"
  by (cases r) (simp add: store_option_def)

lemma edit_frame: "same_frame dlg (edit e dlg)"
  by (cases e)
     (auto simp: edit_def same_frame_refl store_option_frame split: sum.splits option.splits)

lemma fold_edit_frame: "same_frame dlg (fold edit es dlg)"
proof (induction es arbitrary: dlg)
  case Nil
  show ?case by (simp add: same_frame_refl)
next
  case (Cons e es)
  from edit_frame [of dlg e] Cons.IH [of "edit e dlg"] show ?case
    by (auto intro: same_frame_trans)
qed

text \<open>
  C8. Cancel: whatever edits the user has made in the dialog, the Cancel button's command
  is \<open>destroy\<close> alone: it closes the window, and the collaborator's parser
  \<open>config\<close> and its configuration file are what they were before the edits.
\<close>

theorem cancel_leaves_config_unchanged:
  "command fh lower str Cancel (fold edit es dlg) = Inr (destroy (fold edit es dlg))
   \<and> destroyed (destroy (fold edit es dlg))
   \<and> config (self_config (destroy (fold edit es dlg))) = config (self_config dlg)
   \<and> configfile (self_config (destroy (fold edit es dlg))) = configfile (self_config dlg)"
  using fold_edit_frame [of dlg es]
  by (simp add: command_def destroy_def same_frame_def)

lemma control_panel_result:
  assumes "control_panel r info dlg = Inr (page, dlg')"
  shows "page = ControlPanel r info" "same_frame dlg dlg'" "tabs dlg' = tabs dlg"
  using assms
  by (cases r; auto simp: control_panel_def bind_Inr_iff same_frame_def)+

lemma build_page_plugins_result:
  "build_page_plugins ttl category plugins dlg = Inr (frames, dlg') \<Longrightarrow>
   map fst frames = map (plugin_title ttl) plugins
   \<and> (\<forall>f\<in>set frames. \<exists>r info. snd f = ControlPanel r info)
   \<and> same_frame dlg dlg' \<and> tabs dlg' = tabs dlg"
proof (induction plugins arbitrary: dlg frames)
  case Nil
  then show ?case by (simp add: same_frame_refl)
next
  case (Cons plugin rest)
  from Cons.prems obtain r info frame dlg1 frames1 where
    c: "control_panel r info dlg = Inr (frame, dlg1)"
    and b: "build_page_plugins ttl category rest dlg1 = Inr (frames1, dlg')"
    and f: "frames = (plugin_title ttl plugin, frame) # frames1"
    by (auto simp: bind_Inr_iff)
  from control_panel_result [OF c] Cons.IH [OF b] f show ?case
    by (auto intro: same_frame_trans)
qed

lemma distinct_two_neq:
  assumes "distinct xs" "1 < length xs"
  shows "\<exists>x\<in>set xs. x \<noteq> c"
proof -
  from assms obtain a b rest where xs: "xs = a # b # rest"
    by (cases xs; cases "tl xs") auto
  with assms have "a \<noteq> b" by simp
  with xs show ?thesis by auto
qed

lemma build_page_plugins_frames:
  "build_page_plugins ttl category plugins dlg = Inr (frames, dlg') \<Longrightarrow>
   list_all2 (\<lambda>plugin frame. \<exists>r info.
        gui_section (config_dict_gui dlg) category plugin = Inr r
      \<and> map_of (plugin_info dlg) plugin = Some info
      \<and> frame = (plugin_title ttl plugin, ControlPanel r info)) plugins frames"
proof (induction plugins arbitrary: dlg frames)
  case Nil
  then show ?case by simp
next
  case (Cons plugin rest)
  from Cons.prems obtain r info frame dlg1 frames1 where
    g: "gui_section (config_dict_gui dlg) category plugin = Inr r"
    and i: "dict_index (plugin_info dlg) plugin = Inr info"
    and c: "control_panel r info dlg = Inr (frame, dlg1)"
    and b: "build_page_plugins ttl category rest dlg1 = Inr (frames1, dlg')"
    and f: "frames = (plugin_title ttl plugin, frame) # frames1"
    by (auto simp: bind_Inr_iff)
  note cp = control_panel_result [OF c]
  from cp(2) have same: "config_dict_gui dlg1 = config_dict_gui dlg" "plugin_info dlg1 = plugin_info dlg"
    by (simp_all add: same_frame_def)
  from Cons.IH [OF b] have "list_all2 (\<lambda>plugin frame. \<exists>r info.
        gui_section (config_dict_gui dlg) category plugin = Inr r
      \<and> map_of (plugin_info dlg) plugin = Some info
      \<and> frame = (plugin_title ttl plugin, ControlPanel r info)) rest frames1"
    by (simp add: same)
  with g i cp(1) f show ?case
    by (simp add: dict_index_def split: option.splits)
qed

text \<open>
  C4 (amended). Render nesting: when \<open>build_page\<close> returns the page of a category, the
  page is a notebook exactly when some section of the category has a name other than the
  category's own. The notebook has one sub-tab per section of the category, in the sorted
  order of the section names; the sub-tab of a section has the section's title and is the
  control panel built from the options object the snapshot holds for that section and
  from that section's help text. Otherwise the page is the control panel built from the
  options object and the help text of the section named as the category, with no notebook
  around it. A category with several sections always gets the notebook.
\<close>

theorem build_page_nesting:
  assumes page: "build_page ttl category dlg = Inr (page, dlg')"
    and secs: "map_of (config_dict_gui dlg) category = Some secs"
  shows "(if \<exists>plugin\<in>set (map fst secs). plugin \<noteq> category
          then \<exists>frames. page = Notebook frames
                 \<and> list_all2 (\<lambda>plugin frame. \<exists>r info.
                        map_of secs plugin = Some r
                      \<and> map_of (plugin_info dlg) plugin = Some info
                      \<and> frame = (plugin_title ttl plugin, ControlPanel r info))
                     (sort (map fst secs)) frames
          else \<exists>r info. map_of secs category = Some r
                 \<and> map_of (plugin_info dlg) category = Some info
                 \<and> page = ControlPanel r info)
       \<and> (distinct (map fst secs) \<longrightarrow> 1 < length secs \<longrightarrow> (\<exists>frames. page = Notebook frames
             \<and> length frames = length secs))"
proof -
  let ?plugins = "sort (map fst secs)"
  let ?P = "\<lambda>plugin frame. \<exists>r info.
                        map_of secs plugin = Some r
                      \<and> map_of (plugin_info dlg) plugin = Some info
                      \<and> frame = (plugin_title ttl plugin, ControlPanel r info)"
  have ex: "list_ex (\<lambda>plugin. plugin \<noteq> category) ?plugins
              \<longleftrightarrow> (\<exists>plugin\<in>set (map fst secs). plugin \<noteq> category)"
    by (simp add: list_ex_iff)
  have sec: "map_of secs plugin = Some r"
    if "gui_section (config_dict_gui dlg) category plugin = Inr r" for plugin r
    using that secs by (simp add: gui_section_def split: option.splits)
  have nested: "\<exists>frames. page = Notebook frames \<and> list_all2 ?P ?plugins frames"
    if "\<exists>plugin\<in>set (map fst secs). plugin \<noteq> category"
  proof -
    from that ex have "list_ex (\<lambda>plugin. plugin \<noteq> category) ?plugins" by simp
    with page secs obtain frames where
      b: "build_page_plugins ttl category ?plugins dlg = Inr (frames, dlg')"
      and p: "page = Notebook frames"
      by (auto simp: build_page_def dict_index_def bind_Inr_iff Let_def)
    from build_page_plugins_frames [OF b] have "list_all2 ?P ?plugins frames"
      by (rule list_all2_mono) (auto dest: sec)
    with p show ?thesis by simp
  qed
  have direct: "\<exists>r info. map_of secs category = Some r
                 \<and> map_of (plugin_info dlg) category = Some info
                 \<and> page = ControlPanel r info"
    if no: "\<not> (\<exists>plugin\<in>set (map fst secs). plugin \<noteq> category)"
  proof -
    from no ex have n: "\<not> list_ex (\<lambda>plugin. plugin \<noteq> category) ?plugins" by simp
    with page secs obtain plugin0 rest r info where
      pl: "?plugins = plugin0 # rest"
      and g: "gui_section (config_dict_gui dlg) category plugin0 = Inr r"
      and i: "dict_index (plugin_info dlg) plugin0 = Inr info"
      and c: "control_panel r info dlg = Inr (page, dlg')"
      by (auto simp: build_page_def dict_index_def bind_Inr_iff Let_def
          split: list.splits option.splits)
    from pl have "plugin0 \<in> set ?plugins" by simp
    with no have p0: "plugin0 = category" by auto
    from control_panel_result(1) [OF c] sec [OF g] i show ?thesis
      by (simp add: p0 dict_index_def split: option.splits)
  qed
  have multi: "\<exists>frames. page = Notebook frames \<and> length frames = length secs"
    if "distinct (map fst secs)" "1 < length secs"
  proof -
    from distinct_two_neq [OF that(1), of category] that(2)
    have "\<exists>plugin\<in>set (map fst secs). plugin \<noteq> category" by simp
    from nested [OF this] obtain frames where "page = Notebook frames"
      and "list_all2 ?P ?plugins frames"
      by auto
    moreover from this(2) have "length frames = length secs"
      by (auto dest: list_all2_lengthD)
    ultimately show ?thesis by auto
  qed
  show ?thesis
  proof (cases "\<exists>plugin\<in>set (map fst secs). plugin \<noteq> category")
    case True
    show ?thesis
      unfolding if_P [OF True] using nested [OF True] multi by blast
  next
    case False
    show ?thesis
      unfolding if_not_P [OF False] using direct [OF False] multi by blast
  qed
qed

lemma example_get_config:
  "get_config (config_dict (\<lambda>_ _ y. y)) example_dialog
     = Inr (example_conf, example_loaded\<lparr>config_dict_gui := []\<rparr>)"
  by (simp add: example_defs example_loaded_def)

text \<open>
  C4 as stated fails: in the loaded example the category \<open>train\<close> has the single
  section \<open>train.model\<close>, and its page is a notebook with the sub-tab \<open>Model\<close>.
\<close>

theorem build_page_single_plugin_nested:
  "map_of (config_dict_gui example_loaded) ''train'' = Some [(''train.model'', Ref ''train.model'')]
   \<and> map_sum id fst (build_page title_ascii ''train'' example_loaded)
       = Inr (Notebook [(''Model'', ControlPanel (Ref ''train.model'') (Text ''Model options''))])"
  by code_simp

text \<open>
  On the loaded example: the category \<open>extract\<close> has two sections and gets a notebook
  with the sub-tabs \<open>Align\<close> and \<open>Detect\<close>, each showing its own section; the category
  \<open>global\<close> has the single section \<open>global\<close>, shown without a notebook.
\<close>

theorem build_page_nesting_witness:
  "\<exists>page dlg' page2 dlg2.
       build_page title_ascii ''extract'' example_loaded = Inr (page, dlg')
     \<and> page = Notebook
         [(''Align'', ControlPanel (Ref ''extract.align'') (Text ''Aligner options'')),
          (''Detect'', ControlPanel (Ref ''extract.detect'') (Text ''Detector options''))]
     \<and> build_page title_ascii ''global'' example_loaded = Inr (page2, dlg2)
     \<and> page2 = ControlPanel (Ref ''global'') (Text ''Options that apply to all plugins'')"
proof -
  have "case build_page title_ascii ''extract'' example_loaded of Inl _ \<Rightarrow> False | Inr _ \<Rightarrow> True"
    by code_simp
  then obtain page dlg' where
    b: "build_page title_ascii ''extract'' example_loaded = Inr (page, dlg')"
    by (auto split: sum.splits)
  have "case build_page title_ascii ''global'' example_loaded of Inl _ \<Rightarrow> False | Inr _ \<Rightarrow> True"
    by code_simp
  then obtain page2 dlg2 where
    b2: "build_page title_ascii ''global'' example_loaded = Inr (page2, dlg2)"
    by (auto split: sum.splits)
  have s: "map_of (config_dict_gui example_loaded) ''extract''
             = Some [(''extract.align'', Ref ''extract.align''),
                     (''extract.detect'', Ref ''extract.detect'')]"
    by (simp add: example_loaded_def example_conf_def)
  have s2: "map_of (config_dict_gui example_loaded) ''global'' = Some [(''global'', Ref ''global'')]"
    by (simp add: example_loaded_def example_conf_def)
  have t: "plugin_title title_ascii ''extract.align'' = ''Align''"
    "plugin_title title_ascii ''extract.detect'' = ''Detect''"
    by code_simp+
  have srt: "sort [''extract.align'', ''extract.detect''] = [''extract.align'', ''extract.detect'']"
    by code_simp
  from build_page_nesting [OF b s] have "\<exists>frames. page = Notebook frames
      \<and> list_all2 (\<lambda>plugin frame. \<exists>r info.
             map_of [(''extract.align'', Ref ''extract.align''),
                     (''extract.detect'', Ref ''extract.detect'')] plugin = Some r
           \<and> map_of (plugin_info example_loaded) plugin = Some info
           \<and> frame = (plugin_title title_ascii plugin, ControlPanel r info))
          [''extract.align'', ''extract.detect''] frames"
    using srt by simp
  then have p: "page = Notebook
         [(''Align'', ControlPanel (Ref ''extract.align'') (Text ''Aligner options'')),
          (''Detect'', ControlPanel (Ref ''extract.detect'') (Text ''Detector options''))]"
    by (simp add: list_all2_Cons1 example_loaded_def t)
  from build_page_nesting [OF b2 s2]
  have p2: "page2 = ControlPanel (Ref ''global'') (Text ''Options that apply to all plugins'')"
    by (simp add: example_loaded_def)
  from b p b2 p2 have "build_page title_ascii ''extract'' example_loaded = Inr (page, dlg')
     \<and> page = Notebook
         [(''Align'', ControlPanel (Ref ''extract.align'') (Text ''Aligner options'')),
          (''Detect'', ControlPanel (Ref ''extract.detect'') (Text ''Detector options''))]
     \<and> build_page title_ascii ''global'' example_loaded = Inr (page2, dlg2)
     \<and> page2 = ControlPanel (Ref ''global'') (Text ''Options that apply to all plugins'')"
    by simp
  then show ?thesis
    by (intro exI)
qed

lemma build_page_frame:
  assumes "build_page ttl category dlg = Inr (page, dlg')"
  shows "same_frame dlg dlg'" "tabs dlg' = tabs dlg"
proof -
  from assms obtain secs where secs: "dict_index (config_dict_gui dlg) category = Inr secs"
    by (auto simp: build_page_def bind_Inr_iff)
  let ?plugins = "sort (map fst secs)"
  have "same_frame dlg dlg' \<and> tabs dlg' = tabs dlg"
  proof (cases "list_ex (\<lambda>plugin. plugin \<noteq> category) ?plugins")
    case True
    with assms secs obtain frames where
      "build_page_plugins ttl category ?plugins dlg = Inr (frames, dlg')"
      by (auto simp: build_page_def bind_Inr_iff Let_def)
    from build_page_plugins_result [OF this] show ?thesis by simp
  next
    case False
    with assms secs obtain r info where "control_panel r info dlg = Inr (page, dlg')"
      by (auto simp: build_page_def bind_Inr_iff Let_def split: list.splits)
    from control_panel_result [OF this] show ?thesis by simp
  qed
  then show "same_frame dlg dlg'" "tabs dlg' = tabs dlg" by simp_all
qed

lemma build_tabs_frame:
  "build_tabs ttl categories dlg = Inr dlg' \<Longrightarrow> same_frame dlg dlg'"
proof (induction categories arbitrary: dlg)
  case Nil
  then show ?case by (simp add: same_frame_refl)
next
  case (Cons category rest)
  from Cons.prems obtain page dlg1 where
    p: "build_page ttl category dlg = Inr (page, dlg1)"
    and r: "build_tabs ttl rest (dlg1\<lparr>tabs := tabs dlg1 @ [(ttl category, page)]\<rparr>) = Inr dlg'"
    by (auto simp: bind_Inr_iff)
  have "same_frame dlg1 (dlg1\<lparr>tabs := tabs dlg1 @ [(ttl category, page)]\<rparr>)"
    by (simp add: same_frame_def)
  with build_page_frame(1) [OF p] Cons.IH [OF r] show ?case
    by (blast intro: same_frame_trans)
qed

lemma build_tabs_pages:
  "build_tabs ttl categories dlg = Inr dlg' \<Longrightarrow>
   \<exists>new. tabs dlg' = tabs dlg @ new
       \<and> list_all2 (\<lambda>category tab. fst tab = ttl category
             \<and> (\<exists>d d'. same_frame dlg d \<and> build_page ttl category d = Inr (snd tab, d')))
           categories new"
proof (induction categories arbitrary: dlg)
  case Nil
  then show ?case by simp
next
  case (Cons category rest)
  from Cons.prems obtain page dlg1 where
    p: "build_page ttl category dlg = Inr (page, dlg1)"
    and r: "build_tabs ttl rest (dlg1\<lparr>tabs := tabs dlg1 @ [(ttl category, page)]\<rparr>) = Inr dlg'"
    by (auto simp: bind_Inr_iff)
  let ?dlg2 = "dlg1\<lparr>tabs := tabs dlg1 @ [(ttl category, page)]\<rparr>"
  have frame: "same_frame dlg ?dlg2"
    using build_page_frame(1) [OF p] by (simp add: same_frame_def)
  from Cons.IH [OF r] obtain new where
    t: "tabs dlg' = tabs ?dlg2 @ new"
    and l: "list_all2 (\<lambda>category tab. fst tab = ttl category
             \<and> (\<exists>d d'. same_frame ?dlg2 d \<and> build_page ttl category d = Inr (snd tab, d')))
           rest new"
    by (elim exE conjE)
  from l have l': "list_all2 (\<lambda>category tab. fst tab = ttl category
             \<and> (\<exists>d d'. same_frame dlg d \<and> build_page ttl category d = Inr (snd tab, d')))
           rest new"
  proof (rule list_all2_mono)
    fix category tab
    assume "fst tab = ttl category
             \<and> (\<exists>d d'. same_frame ?dlg2 d \<and> build_page ttl category d = Inr (snd tab, d'))"
    with frame show "fst tab = ttl category
             \<and> (\<exists>d d'. same_frame dlg d \<and> build_page ttl category d = Inr (snd tab, d'))"
      by (blast intro: same_frame_trans)
  qed
  have first: "same_frame dlg dlg \<and> build_page ttl category dlg = Inr (snd (ttl category, page), dlg1)"
    using p by (simp add: same_frame_refl)
  have "tabs dlg' = tabs dlg @ (ttl category, page) # new"
    using t build_page_frame(2) [OF p] by simp
  moreover have "list_all2 (\<lambda>category tab. fst tab = ttl category
             \<and> (\<exists>d d'. same_frame dlg d \<and> build_page ttl category d = Inr (snd tab, d')))
           (category # rest) ((ttl category, page) # new)"
    using l' first by (simp del: snd_conv) blast
  ultimately show ?case by blast
qed

text \<open>
  C5. Category tab ordering: when \<open>build\<close> returns, it has added to the notebook one
  tab per category of the snapshot, each titled \<open>category.title()\<close> and holding a page
  that \<open>build_page\<close> returned for that category. The tabs are in this order: the tab of
  \<open>"global"\<close> first when the snapshot has that category, then the tabs of the other
  categories in ascending lexicographic order.
\<close>

theorem build_tabs_global_first_rest_sorted:
  assumes run: "build ttl dlg = Inr dlg'"
  shows "\<exists>rest new.
           tabs dlg' = tabs dlg @ new
         \<and> list_all2 (\<lambda>category tab. fst tab = ttl category
               \<and> (\<exists>d d'. same_frame dlg d \<and> build_page ttl category d = Inr (snd tab, d')))
             (if ''global'' \<in> set (map fst (config_dict_gui dlg)) then ''global'' # rest else rest)
             new
         \<and> sorted rest
         \<and> set rest - {''global''} = set (map fst (config_dict_gui dlg)) - {''global''}
         \<and> length new = length (config_dict_gui dlg)"
proof -
  let ?conf = "config_dict_gui dlg"
  let ?P = "\<lambda>category tab. fst tab = ttl category
               \<and> (\<exists>d d'. same_frame dlg d \<and> build_page ttl category d = Inr (snd tab, d'))"
  from build_categories_order [of ?conf] obtain rest where
    c: "build_categories ?conf = (if ''global'' \<in> set (map fst ?conf) then ''global'' # rest else rest)"
    and s: "sorted rest"
    and m: "set rest - {''global''} = set (map fst ?conf) - {''global''}"
    and n: "length (build_categories ?conf) = length ?conf"
    by (elim exE conjE)
  from run have "build_tabs ttl (build_categories ?conf) dlg = Inr dlg'"
    by (simp add: build_def)
  from build_tabs_pages [OF this] obtain new where
    t: "tabs dlg' = tabs dlg @ new" and l: "list_all2 ?P (build_categories ?conf) new"
    by (elim exE conjE)
  from l n have "length new = length ?conf"
    by (auto dest: list_all2_lengthD)
  with t l s m have "tabs dlg' = tabs dlg @ new
         \<and> list_all2 ?P (if ''global'' \<in> set (map fst ?conf) then ''global'' # rest else rest) new
         \<and> sorted rest
         \<and> set rest - {''global''} = set (map fst ?conf) - {''global''}
         \<and> length new = length ?conf"
    unfolding c by simp
  then show ?thesis
    by (intro exI)
qed

text \<open>
  On the loaded example, whose categories were loaded in the order \<open>global\<close>,
  \<open>extract\<close>, \<open>train\<close>: the tabs are \<open>Global\<close>, \<open>Extract\<close>, \<open>Train\<close>.
\<close>

theorem build_tabs_global_first_rest_sorted_witness:
  "\<exists>dlg' tab new.
       build title_ascii example_loaded = Inr dlg'
     \<and> map fst (tabs dlg') = [''Global'', ''Extract'', ''Train'']
     \<and> tabs dlg' = tab # new \<and> fst tab = ''Global'' \<and> length new = 2"
proof -
  have run: "build title_ascii example_loaded = Inr example_built"
    by code_simp
  have g: "''global'' \<in> set (map fst (config_dict_gui example_loaded))"
    by (simp add: example_loaded_def example_conf_def)
  have t: "title_ascii ''global'' = ''Global''"
    by code_simp
  have e: "tabs example_loaded = []" "length (config_dict_gui example_loaded) = 3"
    by (simp_all add: example_loaded_def example_conf_def)
  from build_tabs_global_first_rest_sorted [OF run] obtain rest new where
    n: "tabs example_built = tabs example_loaded @ new"
    and l: "list_all2 (\<lambda>category tab. fst tab = title_ascii category
               \<and> (\<exists>d d'. same_frame example_loaded d
                     \<and> build_page title_ascii category d = Inr (snd tab, d')))
             (if ''global'' \<in> set (map fst (config_dict_gui example_loaded))
              then ''global'' # rest else rest) new"
    and len: "length new = length (config_dict_gui example_loaded)"
    by (elim exE conjE)
  from l obtain tab new' where new: "new = tab # new'" and f: "fst tab = ''Global''"
    unfolding if_P [OF g] by (auto simp: list_all2_Cons1 t)
  have titles: "map fst (tabs example_built) = [''Global'', ''Extract'', ''Train'']"
    by (simp add: example_built_def example_tabs_def)
  from run titles n new f len e
  have "build title_ascii example_loaded = Inr example_built
     \<and> map fst (tabs example_built) = [''Global'', ''Extract'', ''Train'']
     \<and> tabs example_built = tab # new' \<and> fst tab = ''Global'' \<and> length new' = 2"
    by simp
  then show ?thesis
    by (intro exI)
qed

lemma init_not_destroyed:
  assumes "init cd ttl config_pair = Inr window"
  shows "\<not> destroyed window"
proof -
  from assms obtain conf dlg where
    g: "get_config cd (new_dialog (snd config_pair)) = Inr (conf, dlg)"
    and b: "build ttl (dlg\<lparr>config_dict_gui := conf\<rparr>) = Inr window"
    by (auto simp: init_def bind_Inr_iff)
  from get_config_sections_frame [OF g [unfolded get_config_def]]
  have "\<not> destroyed dlg"
    by (simp add: new_dialog_def)
  with build_tabs_frame [OF b [unfolded build_def]] show ?thesis
    by (simp add: same_frame_def)
qed

lemma close_open_popup_closed:
  assumes "popup_ok st"
  shows "popup (close_open_popup st) = []"
    and "\<forall>w\<in>set (windows (close_open_popup st)). destroyed w"
    and "length (windows (close_open_popup st)) = length (windows st)"
proof -
  have "popup (close_open_popup st) = []
      \<and> (\<forall>w\<in>set (windows (close_open_popup st)). destroyed w)
      \<and> length (windows (close_open_popup st)) = length (windows st)"
  proof (cases "popup st")
    case Nil
    with assms show ?thesis
      by (auto simp: popup_ok_def popup_single_def close_open_popup_def)
  next
    case (Cons p ps)
    with assms obtain name where s: "popup_single st name"
      by (auto simp: popup_ok_def)
    let ?ws = "windows st"
    let ?n = "length ?ws - 1"
    from s have ne: "?ws \<noteq> []" and p: "popup st = [(name, ?n)]"
      and others: "\<forall>w\<in>set (butlast ?ws). destroyed w"
      by (simp_all add: popup_single_def)
    have c: "close_open_popup st =
               st\<lparr>windows := ?ws[?n := destroy (?ws ! ?n)], popup := []\<rparr>"
      using p by (simp add: close_open_popup_def)
    have "destroyed w" if "w \<in> set (?ws[?n := destroy (?ws ! ?n)])" for w
    proof -
      from ne have "?ws[?n := destroy (?ws ! ?n)] = butlast ?ws @ [destroy (last ?ws)]"
        by (metis append_butlast_last_id last_conv_nth length_butlast list_update_length)
      with that others show ?thesis
        by (auto simp: destroy_def)
    qed
    with c show ?thesis by simp
  qed
  then show "popup (close_open_popup st) = []"
    and "\<forall>w\<in>set (windows (close_open_popup st)). destroyed w"
    and "length (windows (close_open_popup st)) = length (windows st)"
    by simp_all
qed

lemma popup_config_single:
  assumes "popup_ok st" "popup_config cd ttl config_pair st = Inr st'"
  shows "popup_single st' (fst config_pair)"
    and "length (windows st') = Suc (length (windows st))"
proof -
  let ?st1 = "close_open_popup st"
  from assms(2) obtain window where
    i: "init cd ttl config_pair = Inr window"
    and st': "st' = ?st1\<lparr>windows := windows ?st1 @ [window],
                popup := AList.update (fst config_pair) (length (windows ?st1)) (popup ?st1)\<rparr>"
    by (auto simp: popup_config_def bind_Inr_iff Let_def)
  from init_not_destroyed [OF i] close_open_popup_closed [OF assms(1)] st'
  show "popup_single st' (fst config_pair)"
    and "length (windows st') = Suc (length (windows st))"
    by (simp_all add: popup_single_def)
qed

lemma popup_configs_single:
  "popup_ok st \<Longrightarrow> popup_configs cd ttl configs st = Inr st' \<Longrightarrow> configs \<noteq> [] \<Longrightarrow>
   popup_single st' (fst (last configs))
   \<and> length (windows st') = length (windows st) + length configs"
proof (induction configs arbitrary: st)
  case Nil
  then show ?case by simp
next
  case (Cons c rest)
  from Cons.prems(2) obtain st1 where
    one: "popup_config cd ttl c st = Inr st1" and run: "popup_configs cd ttl rest st1 = Inr st'"
    by (auto simp: bind_Inr_iff)
  note s = popup_config_single [OF Cons.prems(1) one]
  show ?case
  proof (cases rest)
    case Nil
    with s run show ?thesis by simp
  next
    case (Cons c' rest')
    from s(1) have "popup_ok st1"
      by (auto simp: popup_ok_def)
    from Cons.IH [OF this run] Cons s(2) show ?thesis
      by simp
  qed
qed

lemma popup_configs_append:
  "popup_configs cd ttl (xs @ ys) st = bind (popup_configs cd ttl xs st) (popup_configs cd ttl ys)"
proof (induction xs arbitrary: st)
  case Nil
  show ?case by simp
next
  case (Cons x xs)
  show ?case
    by (cases "popup_config cd ttl x st") (simp_all add: Cons.IH)
qed

lemma popup_ok_initial: "popup_ok initial_gui"
  by (simp add: popup_ok_def initial_gui_def)

text \<open>
  C7. Single instance: in a sequence of calls of \<open>popup_config\<close> from the start of the
  program (each call returning), after the \<open>n\<close>-th call the registry holds one entry,
  the \<open>n\<close>-th window under the \<open>n\<close>-th configuration's identifier, that window is
  open, and every window opened before it has been destroyed. For \<open>n = 2\<close>: opening a
  second dialog, for the same identifier or another, closes the first.
\<close>

theorem popup_configs_single_instance:
  assumes run: "popup_configs cd ttl configs initial_gui = Inr st"
    and n: "0 < n" "n \<le> length configs"
  shows "\<exists>st_n. popup_configs cd ttl (take n configs) initial_gui = Inr st_n
           \<and> popup st_n = [(fst (configs ! (n - 1)), n - 1)]
           \<and> length (windows st_n) = n
           \<and> \<not> destroyed (windows st_n ! (n - 1))
           \<and> (\<forall>i<n - 1. destroyed (windows st_n ! i))"
proof -
  from run have "popup_configs cd ttl (take n configs @ drop n configs) initial_gui = Inr st"
    by simp
  then obtain st_n where pre: "popup_configs cd ttl (take n configs) initial_gui = Inr st_n"
    unfolding popup_configs_append by (auto simp: bind_Inr_iff)
  from n have ne: "take n configs \<noteq> []"
    by auto
  have "last (take n configs) = take n configs ! (length (take n configs) - 1)"
    using ne by (rule last_conv_nth)
  with n have l: "last (take n configs) = configs ! (n - 1)"
    by (simp add: min_absorb2)
  from popup_configs_single [OF popup_ok_initial pre ne] n
  have s: "popup_single st_n (fst (configs ! (n - 1)))" and len: "length (windows st_n) = n"
    by (simp_all add: l initial_gui_def)
  from s len have "popup st_n = [(fst (configs ! (n - 1)), n - 1)]"
    by (simp add: popup_single_def)
  moreover have "\<not> destroyed (windows st_n ! (n - 1))"
  proof -
    from s have w: "windows st_n \<noteq> []" and d: "\<not> destroyed (last (windows st_n))"
      by (simp_all add: popup_single_def)
    from w have "last (windows st_n) = windows st_n ! (length (windows st_n) - 1)"
      by (rule last_conv_nth)
    with d len show ?thesis by simp
  qed
  moreover have "destroyed (windows st_n ! i)" if "i < n - 1" for i
  proof -
    from that len have "windows st_n ! i = butlast (windows st_n) ! i"
      by (simp add: nth_butlast)
    moreover from that len have "butlast (windows st_n) ! i \<in> set (butlast (windows st_n))"
      by simp
    ultimately show ?thesis using s by (simp add: popup_single_def)
  qed
  ultimately show ?thesis using pre len by auto
qed

text \<open>
  On the example, opened twice under the identifier \<open>extract\<close>: the second window is
  the registered, open one; the first is destroyed.
\<close>

theorem popup_configs_single_instance_witness:
  "\<exists>st st2. popup_configs (config_dict (\<lambda>_ _ y. y)) title_ascii example_opens initial_gui = Inr st
     \<and> popup_configs (config_dict (\<lambda>_ _ y. y)) title_ascii (take 2 example_opens) initial_gui = Inr st2
     \<and> popup st2 = [(''extract'', 1)]
     \<and> length (windows st2) = 2
     \<and> \<not> destroyed (windows st2 ! 1)
     \<and> destroyed (windows st2 ! 0)"
proof -
  have "case popup_configs (config_dict (\<lambda>_ _ y. y)) title_ascii example_opens
               (initial_gui :: string gui) of
          Inl _ \<Rightarrow> False | Inr _ \<Rightarrow> True"
    by code_simp
  then obtain st where
    run: "popup_configs (config_dict (\<lambda>_ _ y. y)) title_ascii example_opens initial_gui = Inr st"
    by (auto split: sum.splits)
  have n: "(0::nat) < 2" "2 \<le> length example_opens"
    by (simp_all add: example_opens_def)
  from popup_configs_single_instance [OF run n] obtain st2 where
    r2: "popup_configs (config_dict (\<lambda>_ _ y. y)) title_ascii (take 2 example_opens) initial_gui = Inr st2"
    and p: "popup st2 = [(fst (example_opens ! (2 - 1)), 2 - 1)]"
    and l: "length (windows st2) = 2"
    and a: "\<not> destroyed (windows st2 ! (2 - 1))"
    and d: "\<forall>i<2 - 1. destroyed (windows st2 ! i)"
    by auto
  from p have p': "popup st2 = [(''extract'', 1)]"
    by (simp add: example_opens_def)
  from a have a': "\<not> destroyed (windows st2 ! 1)"
    by simp
  from d have d': "destroyed (windows st2 ! 0)"
    by simp
  have "popup_configs (config_dict (\<lambda>_ _ y. y)) title_ascii example_opens initial_gui = Inr st
     \<and> popup_configs (config_dict (\<lambda>_ _ y. y)) title_ascii (take 2 example_opens) initial_gui = Inr st2
     \<and> popup st2 = [(''extract'', 1)]
     \<and> length (windows st2) = 2
     \<and> \<not> destroyed (windows st2 ! 1)
     \<and> destroyed (windows st2 ! 0)"
    using run r2 p' l a' d' by simp
  then show ?thesis
    by (intro exI)
qed

lemma reset_entry_idem: "reset_entry (reset_entry e) = reset_entry e"
  by (simp add: reset_entry_def split: entry.splits option.splits)

lemma update_keys_same:
  "map_of al k = Some v \<Longrightarrow> map fst (AList.update k v' al) = map fst al"
  by (induction al) auto

lemma gui_inv_refs_own: "gui_inv S conf \<Longrightarrow> refs_own conf"
  unfolding refs_own_def
  by (auto simp: gui_inv_section split: if_splits option.splits)

lemma option_of_Inr: "option_of options item = Inr opt \<longleftrightarrow> map_of options item = Some (Opt opt)"
  by (simp add: option_of_def split: option.splits entry.splits)

lemma dict_field_Inr: "dict_field name x = Inr v \<longleftrightarrow> x = Some v"
  by (simp add: dict_field_def split: option.splits)



lemma deref_Inr: "deref dlg (Ref a) = Inr options \<longleftrightarrow> map_of (defaults (self_config dlg)) a = Some options"
  by (simp add: deref_def split: option.splits)

lemma store_option_entry:
  assumes "map_of (defaults (self_config dlg)) a = Some options" "map_of options item = Some e0"
  shows "entry_at (store_option (Ref a) item opt dlg) s k
           = (if s = a \<and> k = item then Some (Opt opt) else entry_at dlg s k)"
    and "keys_at (store_option (Ref a) item opt dlg) s = keys_at dlg s"
    and "map fst (defaults (self_config (store_option (Ref a) item opt dlg)))
           = map fst (defaults (self_config dlg))"
  using assms
  by (auto simp: store_option_def entry_at_def keys_at_def dict_get_def update_conv'
        update_keys_same)

lemma reset_items_step:
  assumes refs: "refs_own (config_dict_gui dlg)"
    and item: "item \<noteq> ''helptext''"
    and run: "reset_items sect (item # rest) dlg = Inr dlg'"
  obtains items opt d where
    "map_of (defaults (self_config dlg)) sect = Some items"
    "map_of items item = Some (Opt opt)"
    "opt_default opt = Some d"
    "gui_section (config_dict_gui dlg) (fst (reset_lookup sect)) (snd (reset_lookup sect))
       = Inr (Ref sect)"
    "reset_items sect rest (store_option (Ref sect) item (opt\<lparr>opt_selected := Some d\<rparr>) dlg)
       = Inr dlg'"
proof -
  from run item obtain items def_opt dflt r options opt tk_var where
    i: "deref dlg (Ref sect) = Inr items"
    and d: "option_of items item = Inr def_opt"
    and df: "dict_field ''default'' (opt_default def_opt) = Inr dflt"
    and g: "gui_section (config_dict_gui dlg) (fst (reset_lookup sect)) (snd (reset_lookup sect))
              = Inr r"
    and o: "deref dlg r = Inr options"
    and p: "option_of options item = Inr opt"
    and rest: "reset_items sect rest (store_option r item (opt\<lparr>opt_selected := Some dflt\<rparr>) dlg)
                 = Inr dlg'"
    by (auto simp: bind_Inr_iff)
  have "snd (reset_lookup sect) = sect"
    by (simp add: reset_lookup_def)
  with refs g have r: "r = Ref sect"
    by (auto simp: refs_own_def)
  with i o have "options = items" by simp
  with d p have "opt = def_opt" by simp
  with i d df g rest r that show ?thesis
    by (simp add: deref_Inr option_of_Inr dict_field_Inr)
qed

lemma reset_items_effect:
  "refs_own (config_dict_gui dlg) \<Longrightarrow> reset_items sect keys dlg = Inr dlg' \<Longrightarrow>
   same_frame dlg dlg'
   \<and> (\<forall>s. keys_at dlg' s = keys_at dlg s)
   \<and> map fst (defaults (self_config dlg')) = map fst (defaults (self_config dlg))
   \<and> (\<forall>s k. entry_at dlg' s k =
          (if s = sect \<and> k \<in> set keys \<and> k \<noteq> ''helptext''
           then map_option reset_entry (entry_at dlg s k) else entry_at dlg s k))
   \<and> (\<forall>k\<in>set keys. k \<noteq> ''helptext'' \<longrightarrow>
          (\<exists>opt d. entry_at dlg sect k = Some (Opt opt) \<and> opt_default opt = Some d)
          \<and> gui_section (config_dict_gui dlg)
               (fst (reset_lookup sect)) (snd (reset_lookup sect)) = Inr (Ref sect))"
proof (induction keys arbitrary: dlg)
  case Nil
  then show ?case by (simp add: same_frame_refl)
next
  case (Cons item rest)
  show ?case
  proof (cases "item = ''helptext''")
    case True
    with Cons.prems have "reset_items sect rest dlg = Inr dlg'" by simp
    from Cons.IH [OF Cons.prems(1) this] True show ?thesis by auto
  next
    case False
    from Cons.prems(1) False Cons.prems(2) obtain items opt d where
      i: "map_of (defaults (self_config dlg)) sect = Some items"
      and o: "map_of items item = Some (Opt opt)"
      and d: "opt_default opt = Some d"
      and g: "gui_section (config_dict_gui dlg) (fst (reset_lookup sect)) (snd (reset_lookup sect))
                = Inr (Ref sect)"
      and rest: "reset_items sect rest
                   (store_option (Ref sect) item (opt\<lparr>opt_selected := Some d\<rparr>) dlg) = Inr dlg'"
      by (rule reset_items_step)
    let ?dlg1 = "store_option (Ref sect) item (opt\<lparr>opt_selected := Some d\<rparr>) dlg"
    have f1: "same_frame dlg ?dlg1"
      by (rule store_option_frame)
    then have c1: "config_dict_gui ?dlg1 = config_dict_gui dlg"
      by (simp add: same_frame_def)
    with Cons.prems(1) have refs1: "refs_own (config_dict_gui ?dlg1)" by simp
    note IH = Cons.IH [OF refs1 rest, unfolded c1]
    note e1 = store_option_entry [OF i o, of "opt\<lparr>opt_selected := Some d\<rparr>"]
    have here: "entry_at dlg sect item = Some (Opt opt)"
      using i o by (simp add: entry_at_def)
    have re: "reset_entry (Opt opt) = Opt (opt\<lparr>opt_selected := Some d\<rparr>)"
      using d by (simp add: reset_entry_def)
    have frame: "same_frame dlg dlg'"
      using f1 IH by (blast intro: same_frame_trans)
    have keys: "\<forall>s. keys_at dlg' s = keys_at dlg s"
      using IH e1(2) by simp
    have dkeys: "map fst (defaults (self_config dlg')) = map fst (defaults (self_config dlg))"
      using IH e1(3) by simp
    have entries: "entry_at dlg' s k =
          (if s = sect \<and> k \<in> set (item # rest) \<and> k \<noteq> ''helptext''
           then map_option reset_entry (entry_at dlg s k) else entry_at dlg s k)" for s k
    proof -
      from IH have "entry_at dlg' s k =
          (if s = sect \<and> k \<in> set rest \<and> k \<noteq> ''helptext''
           then map_option reset_entry (entry_at ?dlg1 s k) else entry_at ?dlg1 s k)"
        by blast
      then show ?thesis
        using False here re reset_entry_idem [of "Opt opt"]
        by (auto simp: e1(1))
    qed
    have typed: "(\<exists>opt d. entry_at dlg sect k = Some (Opt opt) \<and> opt_default opt = Some d)
          \<and> gui_section (config_dict_gui dlg)
               (fst (reset_lookup sect)) (snd (reset_lookup sect)) = Inr (Ref sect)"
      if "k \<in> set (item # rest)" "k \<noteq> ''helptext''" for k
    proof (cases "k = item")
      case True
      with here d g show ?thesis by simp
    next
      case False
      with that have "k \<in> set rest" by simp
      with IH that(2) have "\<exists>opt d. entry_at ?dlg1 sect k = Some (Opt opt) \<and> opt_default opt = Some d"
        by blast
      with False g show ?thesis by (simp add: e1(1))
    qed
    from frame keys dkeys entries typed show ?thesis
      by blast
  qed
qed

lemma map_option_reset_entry_idem:
  "map_option reset_entry (map_option reset_entry x) = map_option reset_entry x"
  by (cases x) (simp_all add: reset_entry_idem)

lemma reset_sections_effect:
  "refs_own (config_dict_gui dlg) \<Longrightarrow> reset_sections secs dlg = Inr dlg' \<Longrightarrow>
   same_frame dlg dlg'
   \<and> (\<forall>s. keys_at dlg' s = keys_at dlg s)
   \<and> map fst (defaults (self_config dlg')) = map fst (defaults (self_config dlg))
   \<and> (\<forall>s k. entry_at dlg' s k =
          (if s \<in> set secs \<and> k \<noteq> ''helptext''
           then map_option reset_entry (entry_at dlg s k) else entry_at dlg s k))
   \<and> (\<forall>s\<in>set secs. \<forall>k e. entry_at dlg s k = Some e \<longrightarrow> k \<noteq> ''helptext'' \<longrightarrow>
          (\<exists>opt d. e = Opt opt \<and> opt_default opt = Some d)
          \<and> gui_section (config_dict_gui dlg)
               (fst (reset_lookup s)) (snd (reset_lookup s)) = Inr (Ref s))"
proof (induction secs arbitrary: dlg)
  case Nil
  then show ?case by (simp add: same_frame_refl)
next
  case (Cons sect rest)
  from Cons.prems(2) obtain items dlg1 where
    i: "map_of (defaults (self_config dlg)) sect = Some items"
    and inner: "reset_items sect (map fst items) dlg = Inr dlg1"
    and outer: "reset_sections rest dlg1 = Inr dlg'"
    by (auto simp: bind_Inr_iff deref_Inr)
  note E = reset_items_effect [OF Cons.prems(1) inner]
  from E have c1: "config_dict_gui dlg1 = config_dict_gui dlg"
    by (simp add: same_frame_def)
  with Cons.prems(1) have "refs_own (config_dict_gui dlg1)" by simp
  note IH = Cons.IH [OF this outer, unfolded c1]
  have nokey: "entry_at dlg sect k = None" if "k \<notin> set (map fst items)" for k
    using that i by (simp add: entry_at_def map_of_eq_None_iff)
  have e1: "entry_at dlg1 s k =
          (if s = sect \<and> k \<noteq> ''helptext''
           then map_option reset_entry (entry_at dlg s k) else entry_at dlg s k)" for s k
  proof -
    from E have "entry_at dlg1 s k =
          (if s = sect \<and> k \<in> set (map fst items) \<and> k \<noteq> ''helptext''
           then map_option reset_entry (entry_at dlg s k) else entry_at dlg s k)"
      by blast
    with nokey [of k] show ?thesis by auto
  qed
  have frame: "same_frame dlg dlg'"
    using E IH by (blast intro: same_frame_trans)
  have keys: "\<forall>s. keys_at dlg' s = keys_at dlg s"
    using E IH by simp
  have dkeys: "map fst (defaults (self_config dlg')) = map fst (defaults (self_config dlg))"
    using E IH by simp
  have entries: "entry_at dlg' s k =
          (if s \<in> set (sect # rest) \<and> k \<noteq> ''helptext''
           then map_option reset_entry (entry_at dlg s k) else entry_at dlg s k)" for s k
  proof -
    from IH have "entry_at dlg' s k =
          (if s \<in> set rest \<and> k \<noteq> ''helptext''
           then map_option reset_entry (entry_at dlg1 s k) else entry_at dlg1 s k)"
      by blast
    then show ?thesis
      by (auto simp: e1 map_option_reset_entry_idem)
  qed
  have typed: "(\<exists>opt d. e = Opt opt \<and> opt_default opt = Some d)
          \<and> gui_section (config_dict_gui dlg)
               (fst (reset_lookup s)) (snd (reset_lookup s)) = Inr (Ref s)"
    if "s \<in> set (sect # rest)" "entry_at dlg s k = Some e" "k \<noteq> ''helptext''" for s k e
  proof (cases "s = sect")
    case True
    with that(2) i have "k \<in> set (map fst items)"
      by (auto simp: entry_at_def dest: map_of_SomeD intro: rev_image_eqI)
    with E that(3) have "(\<exists>opt d. entry_at dlg sect k = Some (Opt opt) \<and> opt_default opt = Some d)
          \<and> gui_section (config_dict_gui dlg)
               (fst (reset_lookup sect)) (snd (reset_lookup sect)) = Inr (Ref sect)"
      by blast
    with True that(2) show ?thesis by auto
  next
    case False
    with that(1) have "s \<in> set rest" by simp
    moreover from False that(2) have "entry_at dlg1 s k = Some e" by (simp add: e1)
    ultimately show ?thesis using IH that(3) by blast
  qed
  from frame keys dkeys entries typed show ?case
    by blast
qed

text \<open>
  C2. Reset postcondition: for a dialog whose snapshot was built by \<open>get_config\<close>, when
  \<open>reset\<close> returns, then for every section of the defaults and every key of it other
  than \<open>"helptext"\<close>, the entry is an option with a default, and the option the snapshot
  shows for it (under the keys of \<open>lookup\<close>) is that option with its \<open>"selected"\<close>
  variable set to the default; nothing else of the option has changed.
\<close>

theorem reset_sets_selected_to_default:
  assumes snapshot: "get_config cd dlg0 = Inr (config_dict_gui dlg, dlg1)"
    and reset: "reset dlg = Inr dlg'"
    and items: "map_of (defaults (self_config dlg)) sect = Some items"
    and item: "map_of items item = Some e" "item \<noteq> ''helptext''"
  shows "\<exists>opt d. e = Opt opt \<and> opt_default opt = Some d
           \<and> gui_option dlg' (config_dict_gui dlg')
                (fst (reset_lookup sect)) (snd (reset_lookup sect)) item
               = Inr (opt\<lparr>opt_selected := Some d\<rparr>)"
proof -
  have refs: "refs_own (config_dict_gui dlg)"
    using get_config_gui_inv [OF snapshot] by (rule gui_inv_refs_own)
  note E = reset_sections_effect [OF refs reset [unfolded reset_def]]
  from items have sect: "sect \<in> set (map fst (defaults (self_config dlg)))"
    by (auto dest: map_of_SomeD intro: rev_image_eqI)
  from items item have at: "entry_at dlg sect item = Some e"
    by (simp add: entry_at_def)
  from E sect at item(2) obtain opt d where e: "e = Opt opt" and d: "opt_default opt = Some d"
    and g: "gui_section (config_dict_gui dlg)
               (fst (reset_lookup sect)) (snd (reset_lookup sect)) = Inr (Ref sect)"
    by blast
  from E have "entry_at dlg' sect item =
          (if sect \<in> set (map fst (defaults (self_config dlg))) \<and> item \<noteq> ''helptext''
           then map_option reset_entry (entry_at dlg sect item) else entry_at dlg sect item)"
    by blast
  with sect item(2) at e d
  have at': "entry_at dlg' sect item = Some (Opt (opt\<lparr>opt_selected := Some d\<rparr>))"
    by (simp add: reset_entry_def)
  from E have c: "config_dict_gui dlg' = config_dict_gui dlg"
    by (simp add: same_frame_def)
  from at' g have "gui_option dlg' (config_dict_gui dlg')
                (fst (reset_lookup sect)) (snd (reset_lookup sect)) item
               = Inr (opt\<lparr>opt_selected := Some d\<rparr>)"
    unfolding c
    by (auto simp: gui_option_def deref_def option_of_def entry_at_def split: option.splits)
  with e d show ?thesis by blast
qed

text \<open>
  The example states are those of the model.
\<close>

lemma example_init:
  "init (config_dict (\<lambda>_ _ y. y)) title_ascii (''extract'', example_config) = Inr example_built"
  by code_simp

lemma example_edited_conf: "config_dict_gui example_edited = example_conf"
  by code_simp

lemma example_edited_global:
  "map_of (defaults (self_config example_edited)) ''global''
     = Some [(''helptext'', Text ''Options that apply to all plugins''),
             (''opt1'', example_entry ''5'' ''The first option'' (Some ''7'') (Some ''9''))]"
  by code_simp

text \<open>
  On the example, built and with \<open>opt1\<close> edited to 9: after \<open>reset\<close> the variable of
  \<open>opt1\<close> holds the default 5.
\<close>

theorem reset_sets_selected_to_default_witness:
  "\<exists>dlg'. get_config (config_dict (\<lambda>_ _ y. y)) example_dialog
             = Inr (config_dict_gui example_edited, example_loaded\<lparr>config_dict_gui := []\<rparr>)
     \<and> reset example_edited = Inr dlg'
     \<and> gui_option dlg' (config_dict_gui dlg') ''global'' ''global'' ''opt1''
         = Inr \<lparr>opt_default = Some ''5'', opt_helptext = Some ''The first option'',
                opt_value = Some ''7'', opt_selected = Some ''5''\<rparr>"
proof -
  have snapshot: "get_config (config_dict (\<lambda>_ _ y. y)) example_dialog
             = Inr (config_dict_gui example_edited, example_loaded\<lparr>config_dict_gui := []\<rparr>)"
    unfolding example_edited_conf by (rule example_get_config)
  have "case reset example_edited of Inl _ \<Rightarrow> False | Inr _ \<Rightarrow> True"
    by code_simp
  then obtain dlg' where reset: "reset example_edited = Inr dlg'"
    by (auto split: sum.splits)
  have item: "map_of [(''helptext'', Text ''Options that apply to all plugins''),
             (''opt1'', example_entry ''5'' ''The first option'' (Some ''7'') (Some ''9''))]
             ''opt1'' = Some (example_entry ''5'' ''The first option'' (Some ''7'') (Some ''9''))"
    by simp
  have l: "reset_lookup ''global'' = (''global'', ''global'')"
    by (simp add: reset_lookup_def)
  from reset_sets_selected_to_default [OF snapshot reset example_edited_global item]
  have "gui_option dlg' (config_dict_gui dlg') ''global'' ''global'' ''opt1''
         = Inr \<lparr>opt_default = Some ''5'', opt_helptext = Some ''The first option'',
                opt_value = Some ''7'', opt_selected = Some ''5''\<rparr>"
    unfolding l by (auto simp: example_entry_def)
  with snapshot reset have "get_config (config_dict (\<lambda>_ _ y. y)) example_dialog
             = Inr (config_dict_gui example_edited, example_loaded\<lparr>config_dict_gui := []\<rparr>)
     \<and> reset example_edited = Inr dlg'
     \<and> gui_option dlg' (config_dict_gui dlg') ''global'' ''global'' ''opt1''
         = Inr \<lparr>opt_default = Some ''5'', opt_helptext = Some ''The first option'',
                opt_value = Some ''7'', opt_selected = Some ''5''\<rparr>"
    by simp
  then show ?thesis
    by (intro exI)
qed

lemma before_set_empty: "before_set [] = Inr []"
  by (simp add: before_set_def remove_keys_def)

lemma before_set_Inr: "before_set t = Inr t' \<Longrightarrow> t' = t"
  by (simp add: before_set_def split: if_splits)

lemma parser_set_Inr:
  assumes "sect \<noteq> []" "sect \<noteq> ''DEFAULT''"
  shows "parser_set lower p sect name v = Inr p' \<longleftrightarrow>
     (\<forall>t. v = Some t \<longrightarrow> before_set t = Inr t) \<and>
     (\<exists>kvs. map_of p sect = Some kvs
         \<and> p' = AList.update sect (AList.update (lower name) v kvs) p)"
proof (cases v)
  case None
  with assms show ?thesis
    by (auto simp: parser_set_def split: option.splits)
next
  case (Some t)
  show ?thesis
  proof (cases "t = []")
    case True
    with Some assms show ?thesis
      by (auto simp: parser_set_def before_set_empty split: option.splits)
  next
    case False
    show ?thesis
    proof (cases "before_set t")
      case (Inl e)
      with Some False show ?thesis
        by (simp add: parser_set_def)
    next
      case (Inr t')
      from before_set_Inr [OF this] Inr Some False assms show ?thesis
        by (auto simp: parser_set_def split: option.splits)
    qed
  qed
qed

lemma parser_set_default:
  assumes "sect = [] \<or> sect = ''DEFAULT''"
  shows "parser_set lower p sect name v = Inr p' \<longleftrightarrow>
     (\<forall>t. v = Some t \<longrightarrow> before_set t = Inr t) \<and> p' = p"
proof (cases v)
  case None
  with assms show ?thesis
    by (auto simp: parser_set_def)
next
  case (Some t)
  show ?thesis
  proof (cases "t = []")
    case True
    with Some assms show ?thesis
      by (auto simp: parser_set_def before_set_empty)
  next
    case False
    show ?thesis
    proof (cases "before_set t")
      case (Inl e)
      with Some False show ?thesis
        by (simp add: parser_set_def)
    next
      case (Inr t')
      from before_set_Inr [OF this] Inr Some False assms show ?thesis
        by (auto simp: parser_set_def)
    qed
  qed
qed



























text \<open>
  An edit value with a percent sign that starts no reference: the parser refuses it,
  \<open>save_config\<close> raises \<open>ValueError\<close> and nothing is written.
\<close>

lemma save_config_percent_refused:
  "save_config example_format_help lower_ascii example_str
     (edit (''global'', ''opt1'', ''50%'') example_built) = Inl ValueError"
  by code_simp

lemma resettableD:
  "resettable dlg \<Longrightarrow> entry_at dlg sect item = Some e \<Longrightarrow> item \<noteq> ''helptext'' \<Longrightarrow>
   \<exists>opt d v. e = Opt opt \<and> opt_default opt = Some d \<and> opt_selected opt = Some v"
  unfolding resettable_def
  by (drule spec [of _ sect], drule spec [of _ item], drule spec [of _ e]) simp

lemma resettableI:
  "(\<And>sect item e. entry_at dlg sect item = Some e \<Longrightarrow> item \<noteq> ''helptext'' \<Longrightarrow>
      \<exists>opt d v. e = Opt opt \<and> opt_default opt = Some d \<and> opt_selected opt = Some v) \<Longrightarrow>
   resettable dlg"
  unfolding resettable_def by (intro allI impI)

lemma resettable_reset_entry:
  assumes "resettable dlg"
    and "\<And>s k. entry_at dlg' s k = entry_at dlg s k
                \<or> entry_at dlg' s k = map_option reset_entry (entry_at dlg s k)"
  shows "resettable dlg'"
proof (rule resettableI)
  fix sect item e
  assume e: "entry_at dlg' sect item = Some e" and item: "item \<noteq> ''helptext''"
  from assms(2) [of sect item] e obtain e0 where e0: "entry_at dlg sect item = Some e0"
    and cases: "e = e0 \<or> e = reset_entry e0"
    by (cases "entry_at dlg sect item") auto
  from resettableD [OF assms(1) e0 item] obtain opt d v where
    "e0 = Opt opt" "opt_default opt = Some d" "opt_selected opt = Some v"
    by (elim exE conjE)
  with cases show "\<exists>opt d v. e = Opt opt \<and> opt_default opt = Some d \<and> opt_selected opt = Some v"
    by (auto simp: reset_entry_def)
qed

text \<open>
  \<open>reset\<close> returns when every section of the defaults was loaded and every option has a
  default and a widget variable.
\<close>

lemma reset_items_returns:
  "gui_section (config_dict_gui dlg) (fst (reset_lookup sect)) (snd (reset_lookup sect))
     = Inr (Ref sect) \<Longrightarrow>
   resettable dlg \<Longrightarrow>
   map_of (defaults (self_config dlg)) sect = Some items \<Longrightarrow>
   set keys \<subseteq> set (map fst items) \<Longrightarrow>
   \<exists>dlg'. reset_items sect keys dlg = Inr dlg'"
proof (induction keys arbitrary: dlg items)
  case Nil
  show ?case by simp
next
  case (Cons item rest)
  show ?case
  proof (cases "item = ''helptext''")
    case True
    from Cons.IH [OF Cons.prems(1,2,3)] Cons.prems(4) True show ?thesis
      by simp
  next
    case False
    from Cons.prems(4) have "map_of items item \<noteq> None"
      by (simp add: map_of_eq_None_iff)
    then obtain e where e: "map_of items item = Some e" by auto
    with Cons.prems(3) have at: "entry_at dlg sect item = Some e"
      by (simp add: entry_at_def)
    from resettableD [OF Cons.prems(2) at False] obtain opt d v where
      o: "e = Opt opt" and d: "opt_default opt = Some d" and v: "opt_selected opt = Some v"
      by (elim exE conjE)
    let ?dlg1 = "store_option (Ref sect) item (opt\<lparr>opt_selected := Some d\<rparr>) dlg"
    note e1 = store_option_entry [OF Cons.prems(3) e, of "opt\<lparr>opt_selected := Some d\<rparr>"]
    have c1: "config_dict_gui ?dlg1 = config_dict_gui dlg"
      using store_option_frame [of dlg "Ref sect" item "opt\<lparr>opt_selected := Some d\<rparr>"]
      by (simp add: same_frame_def)
    have g1: "gui_section (config_dict_gui ?dlg1)
                (fst (reset_lookup sect)) (snd (reset_lookup sect)) = Inr (Ref sect)"
      using Cons.prems(1) by (simp add: c1)
    have r1: "resettable ?dlg1"
    proof (rule resettable_reset_entry [OF Cons.prems(2)])
      fix s k
      show "entry_at ?dlg1 s k = entry_at dlg s k
              \<or> entry_at ?dlg1 s k = map_option reset_entry (entry_at dlg s k)"
        using at o d by (simp add: e1(1) reset_entry_def)
    qed
    from e1(2) [of sect] Cons.prems(3) obtain items1 where
      i1: "map_of (defaults (self_config ?dlg1)) sect = Some items1"
      and k1: "map fst items1 = map fst items"
      by (auto simp: keys_at_def)
    from Cons.prems(4) k1 have "set rest \<subseteq> set (map fst items1)"
      by simp
    from Cons.IH [OF g1 r1 i1 this] obtain dlg' where
      "reset_items sect rest ?dlg1 = Inr dlg'"
      by (elim exE)
    with False Cons.prems(1,3) e o d v show ?thesis
      by (simp add: deref_def option_of_def dict_field_def)
  qed
qed

lemma reset_sections_returns:
  "gui_inv S (config_dict_gui dlg) \<Longrightarrow> set secs \<subseteq> S \<Longrightarrow>
   set secs \<subseteq> set (map fst (defaults (self_config dlg))) \<Longrightarrow> resettable dlg \<Longrightarrow>
   \<exists>dlg'. reset_sections secs dlg = Inr dlg'"
proof (induction secs arbitrary: dlg)
  case Nil
  show ?case by simp
next
  case (Cons sect rest)
  from Cons.prems(3) have "map_of (defaults (self_config dlg)) sect \<noteq> None"
    by (simp add: map_of_eq_None_iff)
  then obtain items where items: "map_of (defaults (self_config dlg)) sect = Some items"
    by auto
  have l: "reset_lookup sect = (split_first sect, sect)"
    by (simp add: reset_lookup_def split_first_no_dot)
  have g: "gui_section (config_dict_gui dlg) (fst (reset_lookup sect)) (snd (reset_lookup sect))
             = Inr (Ref sect)"
    using gui_inv_section [OF Cons.prems(1), of "split_first sect" sect] Cons.prems(2)
    by (simp add: l)
  from reset_items_returns [OF g Cons.prems(4) items subset_refl] obtain dlg1 where
    inner: "reset_items sect (map fst items) dlg = Inr dlg1"
    by (elim exE)
  note E = reset_items_effect [OF gui_inv_refs_own [OF Cons.prems(1)] inner]
  from E have c1: "config_dict_gui dlg1 = config_dict_gui dlg"
    by (simp add: same_frame_def)
  have inv1: "gui_inv S (config_dict_gui dlg1)"
    using Cons.prems(1) by (simp add: c1)
  have keys1: "set rest \<subseteq> set (map fst (defaults (self_config dlg1)))"
    using E Cons.prems(3) by simp
  have r1: "resettable dlg1"
  proof (rule resettable_reset_entry [OF Cons.prems(4)])
    fix s k
    from E have "entry_at dlg1 s k =
          (if s = sect \<and> k \<in> set (map fst items) \<and> k \<noteq> ''helptext''
           then map_option reset_entry (entry_at dlg s k) else entry_at dlg s k)"
      by (elim conjE) (drule spec [of _ s], drule spec [of _ k])
    then show "entry_at dlg1 s k = entry_at dlg s k
              \<or> entry_at dlg1 s k = map_option reset_entry (entry_at dlg s k)"
      by (simp split: if_splits)
  qed
  from Cons.prems(2) have "set rest \<subseteq> S" by simp
  from Cons.IH [OF inv1 this keys1 r1] obtain dlg' where
    "reset_sections rest dlg1 = Inr dlg'"
    by (elim exE)
  with items inner show ?case
    by (simp add: deref_def)
qed

lemma reset_returns:
  assumes snapshot: "get_config cd dlg0 = Inr (config_dict_gui dlg, dlg1)"
    and loaded: "set (map fst (defaults (self_config dlg)))
                   \<subseteq> set (map fst (config (self_config dlg0)))"
    and ready: "resettable dlg"
  shows "\<exists>dlg'. reset dlg = Inr dlg'"
  unfolding reset_def
  using get_config_gui_inv [OF snapshot] loaded subset_refl ready
  by (rule reset_sections_returns)

lemma saveable_itemD:
  "saveable str items \<Longrightarrow> map_of items item = Some e \<Longrightarrow> item \<noteq> ''helptext'' \<Longrightarrow>
   \<exists>opt h v. e = Opt opt \<and> opt_helptext opt = Some h \<and> opt_selected opt = Some v
      \<and> before_set (str v) = Inr (str v)"
  unfolding saveable_def
  by (elim conjE, drule spec [of _ item], drule spec [of _ e]) simp

lemma saveable_helpD:
  "saveable str items \<Longrightarrow> \<exists>h. map_of items ''helptext'' = Some (Text h)"
  by (simp add: saveable_def)

lemma parser_set_returns:
  assumes "sect \<in> set (map fst p) \<or> sect = []"
    and "\<And>t. v = Some t \<Longrightarrow> before_set t = Inr t"
  shows "\<exists>p'. parser_set lower p sect name v = Inr p' \<and> map fst p' = map fst p"
proof (cases "sect = [] \<or> sect = ''DEFAULT''")
  case True
  then have "parser_set lower p sect name v = Inr p"
    using assms(2) by (simp add: parser_set_default)
  then show ?thesis by simp
next
  case False
  with assms(1) have "map_of p sect \<noteq> None"
    by (simp add: map_of_eq_None_iff)
  then obtain kvs where kvs: "map_of p sect = Some kvs" by auto
  let ?p' = "AList.update sect (AList.update (lower name) v kvs) p"
  from False kvs assms(2) have "parser_set lower p sect name v = Inr ?p'"
    by (simp add: parser_set_Inr)
  moreover have "map fst ?p' = map fst p"
    using kvs by (simp add: update_keys_same)
  ultimately show ?thesis by simp
qed

text \<open>
  \<open>save_config\<close> returns when every section of the defaults was loaded, is not named
  \<open>"DEFAULT"\<close> and has a help text, and every option has a help text and a widget
  variable whose text the parser accepts.
\<close>

lemma save_items_returns:
  "map_of options sect = Some (Ref sect) \<Longrightarrow>
   map_of (defaults (self_config dlg)) sect = Some items \<Longrightarrow> saveable str items \<Longrightarrow>
   set keys \<subseteq> set (map fst items) \<Longrightarrow> sect \<in> set (map fst p) \<or> sect = [] \<Longrightarrow>
   \<exists>p'. save_items fh lower str options dlg sect keys p = Inr p' \<and> map fst p' = map fst p"
proof (induction keys arbitrary: p)
  case Nil
  show ?case by simp
next
  case (Cons item rest)
  show ?case
  proof (cases "item = ''helptext''")
    case True
    from Cons.IH [OF Cons.prems(1,2,3) _ Cons.prems(5)] Cons.prems(4) True show ?thesis
      by simp
  next
    case False
    from Cons.prems(4) have "map_of items item \<noteq> None"
      by (simp add: map_of_eq_None_iff)
    then obtain e where e: "map_of items item = Some e" by auto
    from saveable_itemD [OF Cons.prems(3) e False] obtain opt h v where
      o: "e = Opt opt" and h: "opt_helptext opt = Some h" and v: "opt_selected opt = Some v"
      and ok: "before_set (str v) = Inr (str v)"
      by (elim exE conjE)
    from parser_set_returns [OF Cons.prems(5), of None lower "fh h False"] obtain p1 where
      s1: "parser_set lower p sect (fh h False) None = Inr p1" and k1: "map fst p1 = map fst p"
      by auto
    from Cons.prems(5) k1 have in1: "sect \<in> set (map fst p1) \<or> sect = []"
      by simp
    from parser_set_returns [OF in1, of "Some (str v)" lower item] ok obtain p2 where
      s2: "parser_set lower p1 sect item (Some (str v)) = Inr p2" and k2: "map fst p2 = map fst p1"
      by auto
    from in1 k2 have in2: "sect \<in> set (map fst p2) \<or> sect = []"
      by simp
    from Cons.prems(4) have "set rest \<subseteq> set (map fst items)" by simp
    from Cons.IH [OF Cons.prems(1,2,3) this in2] obtain p' where
      r: "save_items fh lower str options dlg sect rest p2 = Inr p'"
      and k: "map fst p' = map fst p2"
      by (elim exE conjE)
    from k k1 k2 have k': "map fst p' = map fst p" by simp
    have "save_items fh lower str options dlg sect (item # rest) p = Inr p'"
      using False Cons.prems(1,2) e o h v s1 s2 r
      by (simp add: deref_def dict_index_def as_option_def dict_field_def)
    with k' show ?thesis by simp
  qed
qed

lemma save_sections_returns:
  "(\<And>s. s \<in> set secs \<Longrightarrow> map_of options s = Some (Ref s)) \<Longrightarrow>
   (\<And>s. s \<in> set secs \<Longrightarrow>
      \<exists>items. map_of (defaults (self_config dlg)) s = Some items \<and> saveable str items) \<Longrightarrow>
   distinct secs \<Longrightarrow> set secs \<inter> set (map fst p) = {} \<Longrightarrow> ''DEFAULT'' \<notin> set secs \<Longrightarrow>
   \<exists>p'. save_sections fh lower str options (dlg :: 'v configure_plugins) secs p = Inr p'"
proof (induction secs arbitrary: p)
  case Nil
  show ?case by simp
next
  case (Cons sect rest)
  from Cons.prems(2) [of sect] obtain items where
    items: "map_of (defaults (self_config dlg)) sect = Some items" and sv: "saveable str items"
    by auto
  from saveable_helpD [OF sv] obtain h where h: "map_of items ''helptext'' = Some (Text h)"
    by (elim exE)
  from Cons.prems(4) have new: "sect \<notin> set (map fst p)"
    by simp
  from Cons.prems(5) have nd: "sect \<noteq> ''DEFAULT''"
    by auto
  let ?p0 = "p @ [(sect, [])]"
  have "sect \<in> set (map fst ?p0) \<or> sect = []"
    by simp
  from parser_set_returns [OF this, of None lower "fh h True"] obtain p1 where
    s1: "parser_set lower ?p0 sect (fh h True) None = Inr p1" and k1: "map fst p1 = map fst ?p0"
    by auto
  have ins: "insert_config_section fh lower sect (Text h :: 'v entry) p = Inr p1"
    using new nd s1 by (simp add: insert_config_section_def)
  from k1 have in1: "sect \<in> set (map fst p1) \<or> sect = []"
    by simp
  from save_items_returns [OF Cons.prems(1) items sv subset_refl in1, of fh lower]
  obtain p2 where
    inner: "save_items fh lower str options dlg sect (map fst items) p1 = Inr p2"
    and k2: "map fst p2 = map fst p1"
    by auto
  have "\<exists>p'. save_sections fh lower str options dlg rest p2 = Inr p'"
  proof (rule Cons.IH)
    show "map_of options s = Some (Ref s)" if "s \<in> set rest" for s
      using Cons.prems(1) [of s] that by simp
    show "\<exists>items. map_of (defaults (self_config dlg)) s = Some items \<and> saveable str items"
      if "s \<in> set rest" for s
      using Cons.prems(2) [of s] that by simp
    show "distinct rest"
      using Cons.prems(3) by simp
    show "''DEFAULT'' \<notin> set rest"
      using Cons.prems(5) by simp
    have "map fst p2 = map fst p @ [sect]"
      using k2 k1 by simp
    then have "set (map fst p2) = insert sect (set (map fst p))"
      by (simp only: set_append) simp
    then show "set rest \<inter> set (map fst p2) = {}"
      using Cons.prems(3,4) by (auto simp del: set_map)
  qed
  then obtain p' where "save_sections fh lower str options dlg rest p2 = Inr p'"
    by (elim exE)
  with items h ins inner show ?case
    by (simp add: deref_def dict_index_def)
qed

lemma save_config_returns:
  assumes snapshot: "get_config cd dlg0 = Inr (config_dict_gui dlg, dlg1)"
    and loaded: "set (map fst (defaults (self_config dlg)))
                   \<subseteq> set (map fst (config (self_config dlg0)))"
    and sections: "distinct (map fst (defaults (self_config dlg)))"
      "''DEFAULT'' \<notin> set (map fst (defaults (self_config dlg)))"
    and ready: "\<And>s items. map_of (defaults (self_config dlg)) s = Some items
                  \<Longrightarrow> saveable str items"
  shows "\<exists>dlg'. save_config fh lower str dlg = Inr dlg'"
proof -
  let ?D = "defaults (self_config dlg)"
  let ?options = "flatten_gui (config_dict_gui dlg)"
  have "\<exists>p'. save_sections fh lower str ?options dlg (map fst ?D) [] = Inr p'"
  proof (rule save_sections_returns)
    show "map_of ?options s = Some (Ref s)" if "s \<in> set (map fst ?D)" for s
      using flatten_gui_inv [OF get_config_gui_inv [OF snapshot], of s] that loaded
      by auto
    show "\<exists>items. map_of ?D s = Some items \<and> saveable str items"
      if "s \<in> set (map fst ?D)" for s
    proof -
      from that have "map_of ?D s \<noteq> None"
        by (simp add: map_of_eq_None_iff)
      then obtain items where "map_of ?D s = Some items" by auto
      with ready [OF this] show ?thesis by simp
    qed
    show "distinct (map fst ?D)" by (rule sections(1))
    show "''DEFAULT'' \<notin> set (map fst ?D)" by (rule sections(2))
    show "set (map fst ?D) \<inter> set (map fst ([] :: parser)) = {}" by simp
  qed
  then show ?thesis
    by (auto simp: save_config_def Let_def)
qed

end
